theory Spec2Isabelle
  imports Main "HOL-Library.Word"
begin

section \<open>Data model\<close>

text \<open>
  The rich-text setup of \<^verbatim>\<open>packages/lexical-react/src/shared/useRichTextSetup.js\<close>
  installs one command listener and exposes \<^verbatim>\<open>initEditor\<close> and \<^verbatim>\<open>clearEditor\<close>.
  The listener and the two editor operations are translated from that file. What they
  call in the lexical core (the node map, the selection operations, the dispatcher, the
  transaction runner) lives outside that file: the selection operations are parameters
  of the model, and the small tree and dispatch primitives are modelled from the
  specification, each marked as such.
\<close>

text \<open>A JavaScript string is a sequence of UTF-16 code units.\<close>

type_synonym js_string = "16 word list"

definition tab :: js_string where
  "tab = [9]"

text \<open>Node keys: the root has a key of its own, every other key comes from a counter.\<close>

datatype key = RootKey | NodeKey nat

datatype node_type =
  RootNode | ParagraphNode | HeadingNode | ListNode | ListItemNode | QuoteNode | CodeNode
  | TextNode | LineBreakNode

record node =
  kind :: node_type
  parent :: "key option"
  children :: "key list"
  content :: js_string
  indent :: int

datatype point_type = TextPoint | ElementPoint

record point =
  pkey :: key
  poffset :: int
  ptype :: point_type

record range_selection =
  anchor :: point
  focus :: point

text \<open>
  The editor state that is active inside a transaction: the node map, the selection
  (\<open>None\<close> is JavaScript's \<^verbatim>\<open>null\<close>) and the counter new node keys are drawn from.
\<close>

record editor_state =
  nodes :: "key \<rightharpoonup> node"
  selection :: "range_selection option"
  nextKey :: nat

text \<open>
  A keyboard event is a mutable object of the host. The model gives it an identity and
  records every \<^verbatim>\<open>preventDefault()\<close> call in a log kept beside the editor state.
\<close>

record keyboard_event =
  event_id :: nat
  shiftKey :: bool

text \<open>
  The payload of a command is untyped in the source (\<^verbatim>\<open>payload: any\<close> behind erased Flow
  annotations). The model distinguishes the values the listener can tell apart: the
  nullish values, primitive values and keyboard events.
\<close>

datatype payload =
  PUndefined | PNull | PBool bool | PString js_string | PEvent keyboard_event

record world =
  es :: editor_state
  prevented :: "nat list"

text \<open>
  Exceptions. \<open>CoreThrow\<close> is an exception raised inside an operation of the lexical core;
  \<open>DepthExceeded\<close> is the only result of a dispatch that ran out of its depth bound.
\<close>

datatype error = TypeError | NodeNotFound | ParentNotFound | RootNotFound | CoreThrow nat | DepthExceeded

type_synonym exec = "string \<Rightarrow> payload \<Rightarrow> world \<Rightarrow> error + bool \<times> world"

subsection \<open>Operations of the lexical core taken as parameters\<close>

text \<open>
  The selection methods, \<^verbatim>\<open>setFormat\<close>, \<^verbatim>\<open>$shouldOverrideDefaultCharacterSelection\<close>,
  \<^verbatim>\<open>$moveCharacter\<close> and \<^verbatim>\<open>getTextContent\<close> live in the lexical core. Each mutating one
  maps the active editor state to a new one or throws (\<open>Inl\<close>); each receives the payload
  exactly as the listener passes it on.
\<close>

record core =
  deleteCharacter :: "payload \<Rightarrow> editor_state \<Rightarrow> nat + editor_state"
  deleteWord :: "payload \<Rightarrow> editor_state \<Rightarrow> nat + editor_state"
  deleteLine :: "payload \<Rightarrow> editor_state \<Rightarrow> nat + editor_state"
  insertText :: "payload \<Rightarrow> editor_state \<Rightarrow> nat + editor_state"
  removeText :: "editor_state \<Rightarrow> nat + editor_state"
  formatText :: "payload \<Rightarrow> editor_state \<Rightarrow> nat + editor_state"
  setFormat :: "key \<Rightarrow> payload \<Rightarrow> editor_state \<Rightarrow> nat + editor_state"
  insertLineBreak :: "payload \<Rightarrow> editor_state \<Rightarrow> nat + editor_state"
  insertParagraph :: "editor_state \<Rightarrow> nat + editor_state"
  shouldOverrideDefaultCharacterSelection :: "bool \<Rightarrow> editor_state \<Rightarrow> bool"
  moveCharacter :: "payload \<Rightarrow> bool \<Rightarrow> editor_state \<Rightarrow> nat + editor_state"
  getTextContent :: "editor_state \<Rightarrow> key \<Rightarrow> js_string"

text \<open>Run a core operation on the active editor state; an exception propagates.\<close>

definition call :: "(editor_state \<Rightarrow> nat + editor_state) \<Rightarrow> world \<Rightarrow> error + world" where
  "call f w = (case f (es w) of Inl x \<Rightarrow> Inl (CoreThrow x) | Inr s \<Rightarrow> Inr (w\<lparr>es := s\<rparr>))"

text \<open>\<^verbatim>\<open>return b\<close> after a statement that may have thrown.\<close>

definition returning :: "bool \<Rightarrow> error + world \<Rightarrow> error + bool \<times> world" where
  "returning b r = (case r of Inl e \<Rightarrow> Inl e | Inr w \<Rightarrow> Inr (b, w))"

subsection \<open>Tree primitives\<close>

text \<open>
  Modelled from the spec: \<^verbatim>\<open>Point.getNode\<close>, missing from the sources. A selection endpoint
  references a node of the active snapshot; a reference to a node that is not there is an
  invariant violation and throws.
\<close>

definition getNode :: "editor_state \<Rightarrow> point \<Rightarrow> error + key \<times> node" where
  "getNode s pt = (case nodes s (pkey pt) of None \<Rightarrow> Inl NodeNotFound | Some n \<Rightarrow> Inr (pkey pt, n))"

text \<open>
  Modelled from the spec: \<^verbatim>\<open>getParentOrThrow\<close>, missing from the sources. The nearest
  element ancestor of a leaf is its parent; it must exist, otherwise the call fails fatally.
\<close>

definition getParentOrThrow :: "editor_state \<Rightarrow> node \<Rightarrow> error + key \<times> node" where
  "getParentOrThrow s n =
     (case parent n of
        None \<Rightarrow> Inl ParentNotFound
      | Some k \<Rightarrow> (case nodes s k of None \<Rightarrow> Inl ParentNotFound | Some p \<Rightarrow> Inr (k, p)))"

text \<open>
  Modelled from the spec: \<^verbatim>\<open>$isElementNode\<close>, missing from the sources. Text and line-break
  nodes are leaves, every other variant is an element container.
\<close>

definition isElementNode :: "node \<Rightarrow> bool" where
  "isElementNode n = (kind n \<noteq> TextNode \<and> kind n \<noteq> LineBreakNode)"

text \<open>
  Modelled from the spec: \<^verbatim>\<open>canInsertTab\<close>, missing from the sources. A block accepts
  literal tab characters exactly when it has code-block semantics.
\<close>

definition canInsertTab :: "node \<Rightarrow> bool" where
  "canInsertTab n = (kind n = CodeNode)"

text \<open>
  Modelled from the spec: \<^verbatim>\<open>getIndent\<close> and \<^verbatim>\<open>setIndent\<close>, missing from the sources. The
  indent level is an attribute of the node; writing it replaces the node in the node map
  of the active snapshot.
\<close>

definition getIndent :: "node \<Rightarrow> int" where
  "getIndent n = indent n"

definition setIndent :: "key \<Rightarrow> node \<Rightarrow> int \<Rightarrow> world \<Rightarrow> world" where
  "setIndent k n v w = w\<lparr>es := (es w)\<lparr>nodes := (nodes (es w))(k \<mapsto> n\<lparr>indent := v\<rparr>)\<rparr>\<rparr>"

text \<open>
  The block resolution shared by \<^verbatim>\<open>indentContent\<close> and \<^verbatim>\<open>outdentContent\<close>
  (source lines 186-190 and 202-207): the anchor node itself when the anchor is of type
  \<^verbatim>\<open>'element'\<close>, else the parent of the anchor node.
\<close>

definition parentBlock :: "editor_state \<Rightarrow> point \<Rightarrow> error + key \<times> node" where
  "parentBlock s a =
     (case getNode s a of
        Inl e \<Rightarrow> Inl e
      | Inr (k, n) \<Rightarrow> if ptype a = ElementPoint then Inr (k, n) else getParentOrThrow s n)"

text \<open>
  Indexing a JavaScript string: \<^verbatim>\<open>s[i]\<close> is the code unit at \<open>i\<close>, and \<^verbatim>\<open>undefined\<close>
  (\<open>None\<close>) for every index outside the string, negative ones included.
\<close>

definition js_index :: "js_string \<Rightarrow> int \<Rightarrow> 16 word option" where
  "js_index s i = (if 0 \<le> i \<and> i < int (length s) then Some (s ! nat i) else None)"

subsection \<open>Keyboard events\<close>

text \<open>
  \<^verbatim>\<open>event.preventDefault()\<close>: marks a keyboard event consumed. On a nullish payload the
  property access throws, on any other payload that is not an event there is no such
  method; both are a \<^verbatim>\<open>TypeError\<close>.
\<close>

definition preventDefault :: "payload \<Rightarrow> world \<Rightarrow> error + world" where
  "preventDefault p w =
     (case p of
        PEvent e \<Rightarrow> Inr (w\<lparr>prevented := prevented w @ [event_id e]\<rparr>)
      | _ \<Rightarrow> Inl TypeError)"

text \<open>
  \<^verbatim>\<open>event.shiftKey\<close> as a value: throws on a nullish payload, is \<^verbatim>\<open>undefined\<close> on a
  primitive one.
\<close>

definition get_shiftKey :: "payload \<Rightarrow> error + payload" where
  "get_shiftKey p =
     (case p of
        PUndefined \<Rightarrow> Inl TypeError
      | PNull \<Rightarrow> Inl TypeError
      | PEvent e \<Rightarrow> Inr (PBool (shiftKey e))
      | _ \<Rightarrow> Inr PUndefined)"

text \<open>\<^verbatim>\<open>event.shiftKey\<close> as a condition, read after \<^verbatim>\<open>preventDefault\<close> has succeeded.\<close>

definition holdsShift :: "payload \<Rightarrow> bool" where
  "holdsShift p = (case p of PEvent e \<Rightarrow> shiftKey e | _ \<Rightarrow> False)"

section \<open>The command listener\<close>

text \<open>
  The listener registered by \<^verbatim>\<open>useRichTextSetup\<close> (source lines 135-268). \<open>exec\<close> is
  \<^verbatim>\<open>editor.execCommand\<close>, through which the listener dispatches further commands. The
  cases are tried in the order of the \<^verbatim>\<open>switch\<close>; a type that matches none of them falls
  through to \<^verbatim>\<open>return false\<close>.
\<close>

definition listener :: "core \<Rightarrow> exec \<Rightarrow> string \<Rightarrow> payload \<Rightarrow> world \<Rightarrow> error + bool \<times> world" where
  "listener c exec type payload w =
     (case selection (es w) of
        None \<Rightarrow> Inr (False, w)
      | Some sel \<Rightarrow>
          if type = ''deleteCharacter'' then returning True (call (deleteCharacter c payload) w)
          else if type = ''deleteWord'' then returning True (call (deleteWord c payload) w)
          else if type = ''deleteLine'' then returning True (call (deleteLine c payload) w)
          else if type = ''insertText'' then returning True (call (insertText c payload) w)
          else if type = ''removeText'' then returning True (call (removeText c) w)
          else if type = ''formatText'' then returning True (call (formatText c payload) w)
          else if type = ''formatElement'' then
            (case getNode (es w) (anchor sel) of
               Inl e \<Rightarrow> Inl e
             | Inr (k, n) \<Rightarrow>
                 (case (if isElementNode n then Inr (k, n) else getParentOrThrow (es w) n) of
                    Inl e \<Rightarrow> Inl e
                  | Inr (ek, en) \<Rightarrow> returning True (call (setFormat c ek payload) w)))
          else if type = ''insertLineBreak'' then returning True (call (insertLineBreak c payload) w)
          else if type = ''insertParagraph'' then returning True (call (insertParagraph c) w)
          else if type = ''indentContent'' then
            (case parentBlock (es w) (anchor sel) of
               Inl e \<Rightarrow> Inl e
             | Inr (bk, b) \<Rightarrow>
                 if canInsertTab b then
                   (case exec ''insertText'' (PString tab) w of
                      Inl e \<Rightarrow> Inl e
                    | Inr (handled, w') \<Rightarrow> Inr (True, w'))
                 else if getIndent b \<noteq> 10 then Inr (True, setIndent bk b (getIndent b + 1) w)
                 else Inr (True, w))
          else if type = ''outdentContent'' then
            (case getNode (es w) (anchor sel) of
               Inl e \<Rightarrow> Inl e
             | Inr (ak, anchorNode) \<Rightarrow>
                 (case parentBlock (es w) (anchor sel) of
                    Inl e \<Rightarrow> Inl e
                  | Inr (bk, b) \<Rightarrow>
                      if canInsertTab b then
                        (if js_index (getTextContent c (es w) ak) (poffset (anchor sel) - 1) = Some 9 then
                           (case exec ''deleteCharacter'' (PBool True) w of
                              Inl e \<Rightarrow> Inl e
                            | Inr (handled, w') \<Rightarrow> Inr (True, w'))
                         else Inr (True, w))
                      else if getIndent b \<noteq> 0 then Inr (True, setIndent bk b (getIndent b - 1) w)
                      else Inr (True, w)))
          else if type = ''keyArrowLeft'' then
            (case get_shiftKey payload of
               Inl e \<Rightarrow> Inl e
             | Inr isHoldingShift \<Rightarrow>
                 if shouldOverrideDefaultCharacterSelection c True (es w) then
                   (case preventDefault payload w of
                      Inl e \<Rightarrow> Inl e
                    | Inr w1 \<Rightarrow> returning True (call (moveCharacter c isHoldingShift True) w1))
                 else Inr (False, w))
          else if type = ''keyArrowRight'' then
            (case get_shiftKey payload of
               Inl e \<Rightarrow> Inl e
             | Inr isHoldingShift \<Rightarrow>
                 if shouldOverrideDefaultCharacterSelection c False (es w) then
                   (case preventDefault payload w of
                      Inl e \<Rightarrow> Inl e
                    | Inr w1 \<Rightarrow> returning True (call (moveCharacter c isHoldingShift False) w1))
                 else Inr (False, w))
          else if type = ''keyBackspace'' then
            (case preventDefault payload w of
               Inl e \<Rightarrow> Inl e
             | Inr w1 \<Rightarrow> exec ''deleteCharacter'' (PBool True) w1)
          else if type = ''keyDelete'' then
            (case preventDefault payload w of
               Inl e \<Rightarrow> Inl e
             | Inr w1 \<Rightarrow> exec ''deleteCharacter'' (PBool False) w1)
          else if type = ''keyEnter'' then
            (case preventDefault payload w of
               Inl e \<Rightarrow> Inl e
             | Inr w1 \<Rightarrow>
                 if holdsShift payload then exec ''insertLineBreak'' PUndefined w1
                 else exec ''insertParagraph'' PUndefined w1)
          else if type = ''keyTab'' then
            (case preventDefault payload w of
               Inl e \<Rightarrow> Inl e
             | Inr w1 \<Rightarrow>
                 exec (if holdsShift payload then ''outdentContent'' else ''indentContent'') PUndefined w1)
          else Inr (False, w))"

section \<open>The dispatcher\<close>

text \<open>
  Modelled from the spec: the command channel of the editor (\<^verbatim>\<open>editor.execCommand\<close> and the
  listener registry), missing from the sources. Handlers are invoked with the command in
  order; the first one that returns \<^verbatim>\<open>true\<close> stops the propagation, and the command is
  unhandled when none does. An exception of a handler is not caught.
\<close>

fun triggerCommandListeners :: "exec list \<Rightarrow> exec" where
  "triggerCommandListeners [] type payload w = Inr (False, w)"
| "triggerCommandListeners (h # hs) type payload w =
     (case h type payload w of
        Inl e \<Rightarrow> Inl e
      | Inr (handled, w') \<Rightarrow>
          if handled then Inr (True, w') else triggerCommandListeners hs type payload w')"

text \<open>
  Modelled from the spec: the registry holds \<open>(priority, handler)\<close> entries; the higher
  priority runs first and registration order breaks ties (\<open>sort_key\<close> is stable). A handler
  dispatches further commands through the same entry point, so the dispatcher is
  recursive; the depth of nested dispatches is bounded by the first argument, and a
  dispatch that would exceed it ends in \<open>DepthExceeded\<close>.
\<close>

primrec execCommand :: "(int \<times> (exec \<Rightarrow> exec)) list \<Rightarrow> nat \<Rightarrow> exec" where
  "execCommand reg 0 = (\<lambda>type payload w. Inl DepthExceeded)"
| "execCommand reg (Suc d) =
     triggerCommandListeners
       (map (\<lambda>(priority, h). h (execCommand reg d)) (sort_key (\<lambda>(priority, h). - priority) reg))"

definition EditorPriority :: int where
  "EditorPriority = 0"

text \<open>The registry after \<^verbatim>\<open>useRichTextSetup\<close>: the built-in listener alone (source lines 133-270).\<close>

definition registry :: "core \<Rightarrow> (int \<times> (exec \<Rightarrow> exec)) list" where
  "registry c = [(EditorPriority, listener c)]"

text \<open>
  A sequence of dispatches, one after the other on the same editor; an exception ends
  the sequence.
\<close>

fun dispatchAll :: "exec \<Rightarrow> (string \<times> payload) list \<Rightarrow> world \<Rightarrow> error + world" where
  "dispatchAll ex [] w = Inr w"
| "dispatchAll ex ((type, payload) # cs) w =
     (case ex type payload w of Inl e \<Rightarrow> Inl e | Inr (handled, w') \<Rightarrow> dispatchAll ex cs w')"

section \<open>Initialising and clearing the editor\<close>

record editor =
  editorState :: editor_state
  rootElement :: "nat option"

record document =
  activeElement :: "nat option"

text \<open>
  Modelled from the spec: \<^verbatim>\<open>$getRoot\<close> and \<^verbatim>\<open>getFirstChild\<close>, missing from the sources.
\<close>

definition getRoot :: "editor_state \<Rightarrow> error + node" where
  "getRoot s = (case nodes s RootKey of None \<Rightarrow> Inl RootNotFound | Some r \<Rightarrow> Inr r)"

definition getFirstChild :: "node \<Rightarrow> key option" where
  "getFirstChild n = (case children n of [] \<Rightarrow> None | k # ks \<Rightarrow> Some k)"

text \<open>
  Modelled from the spec: \<^verbatim>\<open>$createParagraphNode\<close>, missing from the sources. A new
  paragraph is an element without parent, children or indentation under a key drawn from
  the counter.
\<close>

definition createParagraphNode :: "editor_state \<Rightarrow> key \<times> editor_state" where
  "createParagraphNode s =
     (NodeKey (nextKey s),
      s\<lparr>nodes := (nodes s)(NodeKey (nextKey s) \<mapsto>
            \<lparr>kind = ParagraphNode, parent = None, children = [], content = [], indent = 0\<rparr>),
        nextKey := Suc (nextKey s)\<rparr>)"

text \<open>
  Modelled from the spec: \<^verbatim>\<open>append\<close>, missing from the sources. The child becomes the last
  element of the ordered sequence of children and gets the node as its parent.
\<close>

definition append_node :: "key \<Rightarrow> key \<Rightarrow> editor_state \<Rightarrow> error + editor_state" where
  "append_node k c s =
     (case nodes s k of
        None \<Rightarrow> Inl NodeNotFound
      | Some n \<Rightarrow>
          (case nodes s c of
             None \<Rightarrow> Inl NodeNotFound
           | Some cn \<Rightarrow>
               Inr (s\<lparr>nodes := (nodes s)(k \<mapsto> n\<lparr>children := children n @ [c]\<rparr>,
                                          c \<mapsto> cn\<lparr>parent := Some k\<rparr>)\<rparr>)))"

text \<open>
  Modelled from the spec: \<^verbatim>\<open>clear\<close>, missing from the sources. Every child is detached
  together with its descendants (it keeps them, and loses its parent), and the node is
  left without children.
\<close>

definition detach :: "key \<Rightarrow> (key \<rightharpoonup> node) \<Rightarrow> (key \<rightharpoonup> node)" where
  "detach c m = (case m c of None \<Rightarrow> m | Some cn \<Rightarrow> m(c \<mapsto> cn\<lparr>parent := None\<rparr>))"

definition clear :: "key \<Rightarrow> editor_state \<Rightarrow> error + editor_state" where
  "clear k s =
     (case nodes s k of
        None \<Rightarrow> Inl NodeNotFound
      | Some n \<Rightarrow> Inr (s\<lparr>nodes := (fold detach (children n) (nodes s))(k \<mapsto> n\<lparr>children := []\<rparr>)\<rparr>))"

text \<open>
  Modelled from the spec: \<^verbatim>\<open>select\<close> on an element, missing from the sources. Without
  offsets it places a collapsed selection at the end of the element's children.
\<close>

definition select :: "key \<Rightarrow> editor_state \<Rightarrow> error + editor_state" where
  "select k s =
     (case nodes s k of
        None \<Rightarrow> Inl NodeNotFound
      | Some n \<Rightarrow>
          (let pt = \<lparr>pkey = k, poffset = int (length (children n)), ptype = ElementPoint\<rparr>
           in Inr (s\<lparr>selection := Some \<lparr>anchor = pt, focus = pt\<rparr>\<rparr>)))"

text \<open>
  Modelled from the spec: \<^verbatim>\<open>editor.update\<close>, missing from the sources. The mutator runs on
  the current snapshot; on normal return its result is committed as the new snapshot, and
  the optional completion callback is invoked after the commit, on the editor that holds
  the new snapshot. When the mutator throws, nothing is committed and the exception
  propagates.
\<close>

definition update ::
  "(editor_state \<Rightarrow> error + editor_state) \<Rightarrow> (editor \<Rightarrow> editor) option \<Rightarrow> editor \<Rightarrow> error + editor" where
  "update mutator onUpdate ed =
     (case mutator (editorState ed) of
        Inl e \<Rightarrow> Inl e
      | Inr s \<Rightarrow>
          (let committed = ed\<lparr>editorState := s\<rparr>
           in Inr (case onUpdate of None \<Rightarrow> committed | Some callbackFn \<Rightarrow> callbackFn committed)))"

text \<open>Source lines 71-77. \<open>s\<close> is the editor state active in the running transaction.\<close>

definition shouldSelectParagraph :: "document \<Rightarrow> editor \<Rightarrow> editor_state \<Rightarrow> bool" where
  "shouldSelectParagraph doc ed s =
     (selection s \<noteq> None \<or> (activeElement doc \<noteq> None \<and> activeElement doc = rootElement ed))"

text \<open>Source lines 79-85.\<close>

definition initParagraph :: "document \<Rightarrow> key \<Rightarrow> editor \<Rightarrow> editor_state \<Rightarrow> error + editor_state" where
  "initParagraph doc root ed s =
     (case createParagraphNode s of
        (paragraph, s1) \<Rightarrow>
          (case append_node root paragraph s1 of
             Inl e \<Rightarrow> Inl e
           | Inr s2 \<Rightarrow> if shouldSelectParagraph doc ed s2 then select paragraph s2 else Inr s2))"

text \<open>
  Source lines 87-96. \<^verbatim>\<open>$log\<close> records a debugging label and touches neither the node map
  nor the selection; it is left out.
\<close>

definition initEditor :: "document \<Rightarrow> editor \<Rightarrow> error + editor" where
  "initEditor doc ed =
     update
       (\<lambda>s. case getRoot s of
               Inl e \<Rightarrow> Inl e
             | Inr root \<Rightarrow>
                 (case getFirstChild root of
                    None \<Rightarrow> initParagraph doc RootKey ed s
                  | Some firstChild \<Rightarrow> Inr s))
       None ed"

text \<open>Source lines 98-113.\<close>

definition clearEditor :: "document \<Rightarrow> editor \<Rightarrow> (editor \<Rightarrow> editor) option \<Rightarrow> error + editor" where
  "clearEditor doc ed callbackFn =
     update
       (\<lambda>s. case getRoot s of
               Inl e \<Rightarrow> Inl e
             | Inr root \<Rightarrow>
                 (case clear RootKey s of
                    Inl e \<Rightarrow> Inl e
                  | Inr s1 \<Rightarrow> initParagraph doc RootKey ed s1))
       callbackFn ed"

section \<open>Observations and a concrete instance\<close>

text \<open>The indent level of the node under a key, if there is such a node.\<close>

definition indentAt :: "editor_state \<Rightarrow> key \<Rightarrow> int option" where
  "indentAt s k = map_option indent (nodes s k)"

text \<open>The data-model invariant of one node: if it is in the node map, \<open>0 \<le> indent \<le> 10\<close>.\<close>

definition indentInRange :: "editor_state \<Rightarrow> key \<Rightarrow> bool" where
  "indentInRange s k = (case nodes s k of None \<Rightarrow> True | Some n \<Rightarrow> 0 \<le> indent n \<and> indent n \<le> 10)"

text \<open>The indent level of a node after a sequence of dispatches, \<open>None\<close> when one threw.\<close>

definition finalIndent :: "error + world \<Rightarrow> key \<Rightarrow> int option" where
  "finalIndent r k = (case r of Inl e \<Rightarrow> None | Inr w \<Rightarrow> indentAt (es w) k)"

text \<open>The children of the root, and a collapsed selection on an element.\<close>

definition rootChildren :: "editor_state \<Rightarrow> key list option" where
  "rootChildren s = map_option children (nodes s RootKey)"

definition collapsedAt :: "key \<Rightarrow> int \<Rightarrow> range_selection" where
  "collapsedAt k i =
     \<lparr>anchor = \<lparr>pkey = k, poffset = i, ptype = ElementPoint\<rparr>,
      focus = \<lparr>pkey = k, poffset = i, ptype = ElementPoint\<rparr>\<rparr>"

text \<open>
  What one dispatch leaves behind, \<open>None\<close> when it threw: the indent level and the text of a
  node, and the log of consumed events.
\<close>

definition indentAfter :: "error + bool \<times> world \<Rightarrow> key \<Rightarrow> int option" where
  "indentAfter r k = (case r of Inl e \<Rightarrow> None | Inr (handled, w) \<Rightarrow> indentAt (es w) k)"

definition contentAfter :: "error + bool \<times> world \<Rightarrow> key \<Rightarrow> js_string option" where
  "contentAfter r k = (case r of Inl e \<Rightarrow> None | Inr (handled, w) \<Rightarrow> map_option content (nodes (es w) k))"

definition preventedAfter :: "error + bool \<times> world \<Rightarrow> nat list option" where
  "preventedAfter r = (case r of Inl e \<Rightarrow> None | Inr (handled, w) \<Rightarrow> Some (prevented w))"

text \<open>What a dispatch reports, \<open>None\<close> when it threw.\<close>

definition handledOf :: "error + bool \<times> world \<Rightarrow> bool option" where
  "handledOf r = (case r of Inl e \<Rightarrow> None | Inr (handled, w) \<Rightarrow> Some handled)"

text \<open>
  A small instance of the core operations, to run the listener on concrete documents:
  text is inserted at a collapsed text selection, a character is deleted before or after
  it when there is one, and the remaining operations leave the state as it is.
\<close>

definition example_insertText :: "payload \<Rightarrow> editor_state \<Rightarrow> nat + editor_state" where
  "example_insertText p s =
     (case (p, selection s) of
        (PString t, Some sel) \<Rightarrow>
          (case nodes s (pkey (anchor sel)) of
             None \<Rightarrow> Inl 0
           | Some n \<Rightarrow>
               (let i = nat (poffset (anchor sel));
                    pt = (anchor sel)\<lparr>poffset := poffset (anchor sel) + int (length t)\<rparr>
                in Inr (s\<lparr>nodes := (nodes s)(pkey (anchor sel) \<mapsto>
                              n\<lparr>content := take i (content n) @ t @ drop i (content n)\<rparr>),
                          selection := Some \<lparr>anchor = pt, focus = pt\<rparr>\<rparr>)))
      | _ \<Rightarrow> Inr s)"

definition example_deleteCharacter :: "payload \<Rightarrow> editor_state \<Rightarrow> nat + editor_state" where
  "example_deleteCharacter p s =
     (case (p, selection s) of
        (PBool isBackward, Some sel) \<Rightarrow>
          (case nodes s (pkey (anchor sel)) of
             None \<Rightarrow> Inl 0
           | Some n \<Rightarrow>
               (let i = nat (poffset (anchor sel)) in
                if isBackward then
                  (if 0 < i then
                     (let pt = (anchor sel)\<lparr>poffset := poffset (anchor sel) - 1\<rparr>
                      in Inr (s\<lparr>nodes := (nodes s)(pkey (anchor sel) \<mapsto>
                                    n\<lparr>content := take (i - 1) (content n) @ drop i (content n)\<rparr>),
                                selection := Some \<lparr>anchor = pt, focus = pt\<rparr>\<rparr>))
                   else Inr s)
                else
                  Inr (s\<lparr>nodes := (nodes s)(pkey (anchor sel) \<mapsto>
                              n\<lparr>content := take i (content n) @ drop (Suc i) (content n)\<rparr>)\<rparr>)))
      | _ \<Rightarrow> Inr s)"

definition example_core :: core where
  "example_core =
     \<lparr>deleteCharacter = example_deleteCharacter,
      deleteWord = (\<lambda>p. Inr),
      deleteLine = (\<lambda>p. Inr),
      insertText = example_insertText,
      removeText = Inr,
      formatText = (\<lambda>p. Inr),
      setFormat = (\<lambda>k p. Inr),
      insertLineBreak = (\<lambda>p. Inr),
      insertParagraph = Inr,
      shouldOverrideDefaultCharacterSelection = (\<lambda>isBackward s. False),
      moveCharacter = (\<lambda>p isBackward. Inr),
      getTextContent = (\<lambda>s k. case nodes s k of None \<Rightarrow> [] | Some n \<Rightarrow> content n)\<rparr>"

text \<open>
  A document with a paragraph of indent \<open>n\<close> holding the text \<^verbatim>\<open>hi\<close> and a code block
  holding a tab followed by \<^verbatim>\<open>x\<close>.
\<close>

definition example_paragraph :: "int \<Rightarrow> node" where
  "example_paragraph n =
     \<lparr>kind = ParagraphNode, parent = Some RootKey, children = [NodeKey 3], content = [], indent = n\<rparr>"

definition example_code :: node where
  "example_code =
     \<lparr>kind = CodeNode, parent = Some RootKey, children = [NodeKey 4], content = [], indent = 0\<rparr>"

definition example_nodes :: "int \<Rightarrow> key \<rightharpoonup> node" where
  "example_nodes n =
     [RootKey \<mapsto> \<lparr>kind = RootNode, parent = None, children = [NodeKey 1, NodeKey 2],
                  content = [], indent = 0\<rparr>,
      NodeKey 1 \<mapsto> example_paragraph n,
      NodeKey 2 \<mapsto> example_code,
      NodeKey 3 \<mapsto> \<lparr>kind = TextNode, parent = Some (NodeKey 1), children = [],
                    content = [104, 105], indent = 0\<rparr>,
      NodeKey 4 \<mapsto> \<lparr>kind = TextNode, parent = Some (NodeKey 2), children = [],
                    content = [9, 120], indent = 0\<rparr>]"

definition caret :: "key \<Rightarrow> int \<Rightarrow> range_selection" where
  "caret k i =
     \<lparr>anchor = \<lparr>pkey = k, poffset = i, ptype = TextPoint\<rparr>,
      focus = \<lparr>pkey = k, poffset = i, ptype = TextPoint\<rparr>\<rparr>"

definition example_state :: "int \<Rightarrow> range_selection option \<Rightarrow> editor_state" where
  "example_state n sel = \<lparr>nodes = example_nodes n, selection = sel, nextKey = 5\<rparr>"

definition example_world :: "int \<Rightarrow> range_selection option \<Rightarrow> world" where
  "example_world n sel = \<lparr>es = example_state n sel, prevented = []\<rparr>"

definition example_event :: "bool \<Rightarrow> payload" where
  "example_event shift = PEvent \<lparr>event_id = 7, shiftKey = shift\<rparr>"

text \<open>An editor on the example document, and one whose root has no children.\<close>

definition example_editor :: "range_selection option \<Rightarrow> editor" where
  "example_editor sel = \<lparr>editorState = example_state 0 sel, rootElement = Some 1\<rparr>"

definition empty_editor :: editor where
  "empty_editor =
     \<lparr>editorState =
        \<lparr>nodes = [RootKey \<mapsto> \<lparr>kind = RootNode, parent = None, children = [], content = [], indent = 0\<rparr>],
         selection = None, nextKey = 1\<rparr>,
      rootElement = Some 1\<rparr>"

definition example_document :: document where
  "example_document = \<lparr>activeElement = Some 1\<rparr>"

text \<open>The paragraph that \<^verbatim>\<open>initParagraph\<close> leaves under the root.\<close>

definition seed_paragraph :: node where
  "seed_paragraph =
     \<lparr>kind = ParagraphNode, parent = Some RootKey, children = [], content = [], indent = 0\<rparr>"

section \<open>The listener, command by command\<close>

lemma triggerCommandListeners_single:
  "triggerCommandListeners [h] type payload w = h type payload w"
  by (auto split: sum.splits)

lemma execCommand_registry_Suc:
  "execCommand (registry c) (Suc d) = listener c (execCommand (registry c) d)"
  by (rule ext)+ (simp add: registry_def triggerCommandListeners_single del: triggerCommandListeners.simps)

lemma listener_insertText:
  "selection (es w) = Some sel \<Longrightarrow>
   listener c ex ''insertText'' p w = returning True (call (insertText c p) w)"
  by (simp add: listener_def)

lemma listener_deleteCharacter:
  "selection (es w) = Some sel \<Longrightarrow>
   listener c ex ''deleteCharacter'' p w = returning True (call (deleteCharacter c p) w)"
  by (simp add: listener_def)

lemma listener_indentContent:
  "selection (es w) = Some sel \<Longrightarrow>
   listener c ex ''indentContent'' p w =
     (case parentBlock (es w) (anchor sel) of
        Inl e \<Rightarrow> Inl e
      | Inr (bk, b) \<Rightarrow>
          if canInsertTab b then
            (case ex ''insertText'' (PString tab) w of
               Inl e \<Rightarrow> Inl e
             | Inr (handled, w') \<Rightarrow> Inr (True, w'))
          else if getIndent b \<noteq> 10 then Inr (True, setIndent bk b (getIndent b + 1) w)
          else Inr (True, w))"
  by (simp add: listener_def)

lemma listener_outdentContent:
  "selection (es w) = Some sel \<Longrightarrow>
   listener c ex ''outdentContent'' p w =
     (case getNode (es w) (anchor sel) of
        Inl e \<Rightarrow> Inl e
      | Inr (ak, anchorNode) \<Rightarrow>
          (case parentBlock (es w) (anchor sel) of
             Inl e \<Rightarrow> Inl e
           | Inr (bk, b) \<Rightarrow>
               if canInsertTab b then
                 (if js_index (getTextContent c (es w) ak) (poffset (anchor sel) - 1) = Some 9 then
                    (case ex ''deleteCharacter'' (PBool True) w of
                       Inl e \<Rightarrow> Inl e
                     | Inr (handled, w') \<Rightarrow> Inr (True, w'))
                  else Inr (True, w))
               else if getIndent b \<noteq> 0 then Inr (True, setIndent bk b (getIndent b - 1) w)
               else Inr (True, w)))"
  by (simp add: listener_def)

lemma listener_keyBackspace:
  "selection (es w) = Some sel \<Longrightarrow>
   listener c ex ''keyBackspace'' p w =
     (case preventDefault p w of
        Inl e \<Rightarrow> Inl e
      | Inr w1 \<Rightarrow> ex ''deleteCharacter'' (PBool True) w1)"
  by (simp add: listener_def)

lemma listener_keyDelete:
  "selection (es w) = Some sel \<Longrightarrow>
   listener c ex ''keyDelete'' p w =
     (case preventDefault p w of
        Inl e \<Rightarrow> Inl e
      | Inr w1 \<Rightarrow> ex ''deleteCharacter'' (PBool False) w1)"
  by (simp add: listener_def)

lemma listener_keyEnter:
  "selection (es w) = Some sel \<Longrightarrow>
   listener c ex ''keyEnter'' p w =
     (case preventDefault p w of
        Inl e \<Rightarrow> Inl e
      | Inr w1 \<Rightarrow>
          if holdsShift p then ex ''insertLineBreak'' PUndefined w1
          else ex ''insertParagraph'' PUndefined w1)"
  by (simp add: listener_def)

lemma listener_keyTab:
  "selection (es w) = Some sel \<Longrightarrow>
   listener c ex ''keyTab'' p w =
     (case preventDefault p w of
        Inl e \<Rightarrow> Inl e
      | Inr w1 \<Rightarrow> ex (if holdsShift p then ''outdentContent'' else ''indentContent'') PUndefined w1)"
  by (simp add: listener_def)

lemma parentBlock_lookup:
  "parentBlock s a = Inr (bk, b) \<Longrightarrow> nodes s bk = Some b"
  by (auto simp: parentBlock_def getNode_def getParentOrThrow_def split: option.splits if_splits)

lemma listener_insertLineBreak:
  "selection (es w) = Some sel \<Longrightarrow>
   listener c ex ''insertLineBreak'' p w = returning True (call (insertLineBreak c p) w)"
  by (simp add: listener_def)

lemma listener_insertParagraph:
  "selection (es w) = Some sel \<Longrightarrow>
   listener c ex ''insertParagraph'' p w = returning True (call (insertParagraph c) w)"
  by (simp add: listener_def)

lemma preventDefault_event:
  "preventDefault (PEvent e) w = Inr (w\<lparr>prevented := prevented w @ [event_id e]\<rparr>)"
  by (simp add: preventDefault_def)

lemma holdsShift_event: "holdsShift (PEvent e) = shiftKey e"
  by (simp add: holdsShift_def)

lemma parentBlock_getNode:
  "parentBlock s a = Inr (bk, b) \<Longrightarrow> \<exists>an. getNode s a = Inr (pkey a, an)"
  by (auto simp: parentBlock_def getNode_def split: option.splits)

lemma exec_insertText:
  "selection (es w) = Some sel \<Longrightarrow>
   execCommand (registry c) (Suc d) ''insertText'' p w = returning True (call (insertText c p) w)"
  by (simp add: execCommand_registry_Suc listener_insertText del: execCommand.simps)

lemma exec_deleteCharacter:
  "selection (es w) = Some sel \<Longrightarrow>
   execCommand (registry c) (Suc d) ''deleteCharacter'' p w = returning True (call (deleteCharacter c p) w)"
  by (simp add: execCommand_registry_Suc listener_deleteCharacter del: execCommand.simps)

lemma returning_call:
  "returning True (call f w) = (case f (es w) of Inl x \<Rightarrow> Inl (CoreThrow x) | Inr s' \<Rightarrow> Inr (True, w\<lparr>es := s'\<rparr>))"
  by (simp add: returning_def call_def split: sum.splits)

lemma exec_insertLineBreak:
  "selection (es w) = Some sel \<Longrightarrow>
   execCommand (registry c) (Suc d) ''insertLineBreak'' p w = returning True (call (insertLineBreak c p) w)"
  by (simp add: execCommand_registry_Suc listener_insertLineBreak del: execCommand.simps)

lemma exec_insertParagraph:
  "selection (es w) = Some sel \<Longrightarrow>
   execCommand (registry c) (Suc d) ''insertParagraph'' p w = returning True (call (insertParagraph c) w)"
  by (simp add: execCommand_registry_Suc listener_insertParagraph del: execCommand.simps)

subsection \<open>Evaluating the concrete instance\<close>

lemma example_insertText_range:
  "example_insertText p s = Inr s' \<Longrightarrow> indentInRange s k \<Longrightarrow> indentInRange s' k"
  by (auto simp: example_insertText_def indentInRange_def Let_def
      split: payload.splits option.splits if_splits)

lemma example_deleteCharacter_range:
  "example_deleteCharacter p s = Inr s' \<Longrightarrow> indentInRange s k \<Longrightarrow> indentInRange s' k"
  by (auto simp: example_deleteCharacter_def indentInRange_def Let_def
      split: payload.splits option.splits if_splits)

lemma example_core_sel [simp]:
  "insertText example_core = example_insertText"
  "deleteCharacter example_core = example_deleteCharacter"
  "getTextContent example_core = (\<lambda>s k. case nodes s k of None \<Rightarrow> [] | Some n \<Rightarrow> content n)"
  by (simp_all add: example_core_def)

lemmas example_defs =
  example_world_def example_state_def example_nodes_def example_paragraph_def example_code_def
  caret_def example_event_def

lemmas run_defs =
  parentBlock_def getNode_def getParentOrThrow_def canInsertTab_def getIndent_def setIndent_def
  returning_def call_def preventDefault_def holdsShift_def js_index_def tab_def

lemma three: "(3::nat) = Suc (Suc (Suc 0))" by simp

subsection \<open>Indent levels under the indent commands\<close>

lemma setIndent_range:
  assumes "indentInRange (es w) k" and "k = bk \<Longrightarrow> 0 \<le> v \<and> v \<le> 10"
  shows "indentInRange (es (setIndent bk b v w)) k"
  using assms by (simp add: indentInRange_def setIndent_def)

lemma call_range:
  assumes "\<And>s s'. f s = Inr s' \<Longrightarrow> indentInRange s k \<Longrightarrow> indentInRange s' k"
    and "returning b (call f w) = Inr (h, w')" and "indentInRange (es w) k"
  shows "indentInRange (es w') k"
  using assms by (auto simp: returning_def call_def split: sum.splits)

lemma exec_insertText_range:
  assumes ins: "\<And>s s'. insertText c (PString tab) s = Inr s' \<Longrightarrow> indentInRange s k \<Longrightarrow> indentInRange s' k"
    and run: "execCommand (registry c) d ''insertText'' (PString tab) w = Inr (h, w')"
    and init: "indentInRange (es w) k"
  shows "indentInRange (es w') k"
proof (cases d)
  case 0
  with run show ?thesis by simp
next
  case (Suc d')
  show ?thesis
  proof (cases "selection (es w)")
    case None
    with run Suc init show ?thesis
      by (simp add: execCommand_registry_Suc listener_def del: execCommand.simps)
  next
    case (Some sel)
    with run Suc have "returning True (call (insertText c (PString tab)) w) = Inr (h, w')"
      by (simp add: execCommand_registry_Suc listener_insertText del: execCommand.simps)
    from call_range [OF ins this init] show ?thesis .
  qed
qed

lemma exec_deleteCharacter_range:
  assumes del: "\<And>s s'. deleteCharacter c (PBool True) s = Inr s' \<Longrightarrow> indentInRange s k \<Longrightarrow> indentInRange s' k"
    and run: "execCommand (registry c) d ''deleteCharacter'' (PBool True) w = Inr (h, w')"
    and init: "indentInRange (es w) k"
  shows "indentInRange (es w') k"
proof (cases d)
  case 0
  with run show ?thesis by simp
next
  case (Suc d')
  show ?thesis
  proof (cases "selection (es w)")
    case None
    with run Suc init show ?thesis
      by (simp add: execCommand_registry_Suc listener_def del: execCommand.simps)
  next
    case (Some sel)
    with run Suc have "returning True (call (deleteCharacter c (PBool True)) w) = Inr (h, w')"
      by (simp add: execCommand_registry_Suc listener_deleteCharacter del: execCommand.simps)
    from call_range [OF del this init] show ?thesis .
  qed
qed

lemma indentContent_range:
  assumes ins: "\<And>s s'. insertText c (PString tab) s = Inr s' \<Longrightarrow> indentInRange s k \<Longrightarrow> indentInRange s' k"
    and run: "execCommand (registry c) d ''indentContent'' p w = Inr (h, w')"
    and init: "indentInRange (es w) k"
  shows "indentInRange (es w') k"
proof (cases d)
  case 0
  with run show ?thesis by simp
next
  case (Suc d')
  show ?thesis
  proof (cases "selection (es w)")
    case None
    with run Suc init show ?thesis
      by (simp add: execCommand_registry_Suc listener_def del: execCommand.simps)
  next
    case (Some sel)
    with run Suc have step: "listener c (execCommand (registry c) d') ''indentContent'' p w = Inr (h, w')"
      by (simp add: execCommand_registry_Suc del: execCommand.simps)
    show ?thesis
    proof (cases "parentBlock (es w) (anchor sel)")
      case (Inl e)
      with step Some show ?thesis by (simp add: listener_indentContent)
    next
      case (Inr r)
      obtain bk b where r: "r = (bk, b)" by (cases r)
      have look: "nodes (es w) bk = Some b"
        using Inr r by (simp add: parentBlock_lookup)
      show ?thesis
      proof (cases "canInsertTab b")
        case True
        with step Some Inr r obtain h' where
          "execCommand (registry c) d' ''insertText'' (PString tab) w = Inr (h', w')"
          by (auto simp: listener_indentContent split: sum.splits)
        from exec_insertText_range [OF ins this init] show ?thesis .
      next
        case False
        show ?thesis
        proof (cases "getIndent b = 10")
          case True
          with step Some Inr r False init show ?thesis by (simp add: listener_indentContent)
        next
          case ne: False
          with step Some Inr r False have w': "w' = setIndent bk b (getIndent b + 1) w"
            by (simp add: listener_indentContent)
          have "k = bk \<Longrightarrow> 0 \<le> getIndent b + 1 \<and> getIndent b + 1 \<le> 10"
            using init look ne by (simp add: indentInRange_def getIndent_def)
          with init show ?thesis unfolding w' by (rule setIndent_range)
        qed
      qed
    qed
  qed
qed

lemma outdentContent_range:
  assumes del: "\<And>s s'. deleteCharacter c (PBool True) s = Inr s' \<Longrightarrow> indentInRange s k \<Longrightarrow> indentInRange s' k"
    and run: "execCommand (registry c) d ''outdentContent'' p w = Inr (h, w')"
    and init: "indentInRange (es w) k"
  shows "indentInRange (es w') k"
proof (cases d)
  case 0
  with run show ?thesis by simp
next
  case (Suc d')
  show ?thesis
  proof (cases "selection (es w)")
    case None
    with run Suc init show ?thesis
      by (simp add: execCommand_registry_Suc listener_def del: execCommand.simps)
  next
    case (Some sel)
    with run Suc have step: "listener c (execCommand (registry c) d') ''outdentContent'' p w = Inr (h, w')"
      by (simp add: execCommand_registry_Suc del: execCommand.simps)
    show ?thesis
    proof (cases "parentBlock (es w) (anchor sel)")
      case (Inl e)
      with step Some show ?thesis by (simp add: listener_outdentContent split: sum.splits prod.splits)
    next
      case (Inr r)
      obtain bk b where r: "r = (bk, b)" by (cases r)
      have look: "nodes (es w) bk = Some b"
        using Inr r by (simp add: parentBlock_lookup)
      obtain ak an where an: "getNode (es w) (anchor sel) = Inr (ak, an)"
        using Inr by (auto simp: parentBlock_def split: sum.splits)
      show ?thesis
      proof (cases "canInsertTab b")
        case True
        show ?thesis
        proof (cases "js_index (getTextContent c (es w) ak) (poffset (anchor sel) - 1) = Some 9")
          case tabch: True
          with step Some Inr r an True obtain h' where
            "execCommand (registry c) d' ''deleteCharacter'' (PBool True) w = Inr (h', w')"
            by (auto simp: listener_outdentContent split: sum.splits)
          from exec_deleteCharacter_range [OF del this init] show ?thesis .
        next
          case False
          with step Some Inr r an True init show ?thesis by (simp add: listener_outdentContent)
        qed
      next
        case False
        show ?thesis
        proof (cases "getIndent b = 0")
          case True
          with step Some Inr r an False init show ?thesis by (simp add: listener_outdentContent)
        next
          case ne: False
          with step Some Inr r an False have w': "w' = setIndent bk b (getIndent b - 1) w"
            by (simp add: listener_outdentContent)
          have "k = bk \<Longrightarrow> 0 \<le> getIndent b - 1 \<and> getIndent b - 1 \<le> 10"
            using init look ne by (simp add: indentInRange_def getIndent_def)
          with init show ?thesis unfolding w' by (rule setIndent_range)
        qed
      qed
    qed
  qed
qed

lemma selection_setIndent [simp]: "selection (es (setIndent bk b v w)) = selection (es w)"
  by (simp add: setIndent_def)

lemma parentBlock_setIndent:
  assumes "parentBlock (es w) a = Inr (bk, b)"
  shows "parentBlock (es (setIndent bk b v w)) a = Inr (bk, b\<lparr>indent := v\<rparr>)"
  using assms
  by (auto simp: parentBlock_def getNode_def getParentOrThrow_def setIndent_def
      split: option.splits if_splits)

lemma setIndent_back:
  assumes "nodes (es w) bk = Some b"
  shows "setIndent bk (b\<lparr>indent := u\<rparr>) (indent b) (setIndent bk b u w) = w"
  using assms by (simp add: setIndent_def fun_upd_idem)

lemma exec_indentContent_plain:
  assumes "selection (es w) = Some sel" and "parentBlock (es w) (anchor sel) = Inr (bk, b)"
    and "\<not> canInsertTab b"
  shows "execCommand (registry c) (Suc d) ''indentContent'' p w =
     Inr (True, if indent b \<noteq> 10 then setIndent bk b (indent b + 1) w else w)"
  using assms
  by (simp add: execCommand_registry_Suc listener_indentContent getIndent_def del: execCommand.simps)

lemma exec_outdentContent_plain:
  assumes "selection (es w) = Some sel" and "parentBlock (es w) (anchor sel) = Inr (bk, b)"
    and "\<not> canInsertTab b"
  shows "execCommand (registry c) (Suc d) ''outdentContent'' p w =
     Inr (True, if indent b \<noteq> 0 then setIndent bk b (indent b - 1) w else w)"
proof -
  from assms(2) obtain ak an where "getNode (es w) (anchor sel) = Inr (ak, an)"
    by (auto simp: parentBlock_def split: sum.splits)
  with assms show ?thesis
    by (simp add: execCommand_registry_Suc listener_outdentContent getIndent_def del: execCommand.simps)
qed

section \<open>Depth of nested dispatches\<close>

text \<open>
  The listener dispatches at most two levels deep (\<^verbatim>\<open>keyTab\<close>, then \<^verbatim>\<open>indentContent\<close> or
  \<^verbatim>\<open>outdentContent\<close>, then \<^verbatim>\<open>insertText\<close> or \<^verbatim>\<open>deleteCharacter\<close>). With the built-in
  listener alone a depth bound of three is therefore never reached, and the result does
  not depend on the bound from three on.
\<close>

lemma parentBlock_error:
  "parentBlock s a = Inl e \<Longrightarrow> e = NodeNotFound \<or> e = ParentNotFound"
  by (auto simp: parentBlock_def getNode_def getParentOrThrow_def split: option.splits if_splits)

lemma getNode_error:
  "getNode s a = Inl e \<Longrightarrow> e = NodeNotFound"
  by (auto simp: getNode_def split: option.splits)

lemma getParentOrThrow_error:
  "getParentOrThrow s n = Inl e \<Longrightarrow> e = ParentNotFound"
  by (auto simp: getParentOrThrow_def split: option.splits)

lemma returning_call_no_depth:
  "returning b (call f w) \<noteq> Inl DepthExceeded"
  by (simp add: returning_def call_def split: sum.splits)

lemma preventDefault_error:
  "preventDefault p w = Inl e \<Longrightarrow> e = TypeError"
  by (auto simp: preventDefault_def split: payload.splits)

lemma get_shiftKey_error:
  "get_shiftKey p = Inl e \<Longrightarrow> e = TypeError"
  by (auto simp: get_shiftKey_def split: payload.splits)

lemma parentBlock_no_depth: "parentBlock s a \<noteq> Inl DepthExceeded"
  using parentBlock_error [of s a DepthExceeded] by auto

lemma getNode_no_depth: "getNode s a \<noteq> Inl DepthExceeded"
  using getNode_error [of s a DepthExceeded] by auto

lemma listener_no_depth:
  assumes "\<And>p w. ex ''insertText'' p w \<noteq> Inl DepthExceeded"
    and "\<And>p w. ex ''deleteCharacter'' p w \<noteq> Inl DepthExceeded"
    and "\<And>p w. ex ''insertLineBreak'' p w \<noteq> Inl DepthExceeded"
    and "\<And>p w. ex ''insertParagraph'' p w \<noteq> Inl DepthExceeded"
    and "\<And>p w. ex ''indentContent'' p w \<noteq> Inl DepthExceeded"
    and "\<And>p w. ex ''outdentContent'' p w \<noteq> Inl DepthExceeded"
  shows "listener c ex type payload w \<noteq> Inl DepthExceeded"
proof (cases "selection (es w)")
  case None
  then show ?thesis by (simp add: listener_def)
next
  case (Some sel)
  show ?thesis
  proof (cases "type = ''deleteCharacter'' \<or> type = ''deleteWord'' \<or> type = ''deleteLine'' \<or> type = ''insertText'' \<or> type = ''removeText'' \<or> type = ''formatText'' \<or> type = ''formatElement'' \<or> type = ''insertLineBreak'' \<or> type = ''insertParagraph'' \<or> type = ''indentContent'' \<or> type = ''outdentContent'' \<or> type = ''keyArrowLeft'' \<or> type = ''keyArrowRight'' \<or> type = ''keyBackspace'' \<or> type = ''keyDelete'' \<or> type = ''keyEnter'' \<or> type = ''keyTab''")
    case True
    then show ?thesis using Some assms
      by (elim disjE;
          auto simp: listener_def returning_call_no_depth split: sum.splits
            dest: parentBlock_error getNode_error preventDefault_error get_shiftKey_error
              getParentOrThrow_error)
  next
    case False
    then show ?thesis using Some by (simp add: listener_def)
  qed
qed

lemma listener_cong_redispatch:
  assumes "\<And>p w. ex ''insertText'' p w = ex' ''insertText'' p w"
    and "\<And>p w. ex ''deleteCharacter'' p w = ex' ''deleteCharacter'' p w"
    and "\<And>p w. ex ''insertLineBreak'' p w = ex' ''insertLineBreak'' p w"
    and "\<And>p w. ex ''insertParagraph'' p w = ex' ''insertParagraph'' p w"
    and "\<And>p w. ex ''indentContent'' p w = ex' ''indentContent'' p w"
    and "\<And>p w. ex ''outdentContent'' p w = ex' ''outdentContent'' p w"
  shows "listener c ex type payload w = listener c ex' type payload w"
proof (cases "selection (es w)")
  case None
  then show ?thesis by (simp add: listener_def)
next
  case (Some sel)
  show ?thesis
  proof (cases "type = ''deleteCharacter'' \<or> type = ''deleteWord'' \<or> type = ''deleteLine'' \<or> type = ''insertText'' \<or> type = ''removeText'' \<or> type = ''formatText'' \<or> type = ''formatElement'' \<or> type = ''insertLineBreak'' \<or> type = ''insertParagraph'' \<or> type = ''indentContent'' \<or> type = ''outdentContent'' \<or> type = ''keyArrowLeft'' \<or> type = ''keyArrowRight'' \<or> type = ''keyBackspace'' \<or> type = ''keyDelete'' \<or> type = ''keyEnter'' \<or> type = ''keyTab''")
    case True
    then show ?thesis using Some
      by (elim disjE; simp add: listener_def assms split: sum.split prod.split)
  next
    case False
    then show ?thesis using Some by (simp add: listener_def)
  qed
qed

lemma listener_basic_no_depth:
  "listener c ex ''insertText'' p w \<noteq> Inl DepthExceeded"
  "listener c ex ''deleteCharacter'' p w \<noteq> Inl DepthExceeded"
  "listener c ex ''insertLineBreak'' p w \<noteq> Inl DepthExceeded"
  "listener c ex ''insertParagraph'' p w \<noteq> Inl DepthExceeded"
  by (cases "selection (es w)"; simp add: listener_def returning_call_no_depth)+

lemma listener_basic_cong:
  "listener c ex ''insertText'' p w = listener c ex' ''insertText'' p w"
  "listener c ex ''deleteCharacter'' p w = listener c ex' ''deleteCharacter'' p w"
  "listener c ex ''insertLineBreak'' p w = listener c ex' ''insertLineBreak'' p w"
  "listener c ex ''insertParagraph'' p w = listener c ex' ''insertParagraph'' p w"
  by (cases "selection (es w)"; simp add: listener_def)+

lemma execCommand_basic_no_depth:
  "execCommand (registry c) (Suc d) ''insertText'' p w \<noteq> Inl DepthExceeded"
  "execCommand (registry c) (Suc d) ''deleteCharacter'' p w \<noteq> Inl DepthExceeded"
  "execCommand (registry c) (Suc d) ''insertLineBreak'' p w \<noteq> Inl DepthExceeded"
  "execCommand (registry c) (Suc d) ''insertParagraph'' p w \<noteq> Inl DepthExceeded"
  unfolding execCommand_registry_Suc by (rule listener_basic_no_depth)+

lemma execCommand_basic_depth:
  "execCommand (registry c) (Suc d) ''insertText'' p w = execCommand (registry c) (Suc d') ''insertText'' p w"
  "execCommand (registry c) (Suc d) ''deleteCharacter'' p w = execCommand (registry c) (Suc d') ''deleteCharacter'' p w"
  "execCommand (registry c) (Suc d) ''insertLineBreak'' p w = execCommand (registry c) (Suc d') ''insertLineBreak'' p w"
  "execCommand (registry c) (Suc d) ''insertParagraph'' p w = execCommand (registry c) (Suc d') ''insertParagraph'' p w"
  unfolding execCommand_registry_Suc by (rule listener_basic_cong)+

lemma sum_case_no_depth:
  assumes "r \<noteq> Inl DepthExceeded" and "\<And>x. r = Inr x \<Longrightarrow> f x \<noteq> Inl DepthExceeded"
  shows "(case r of Inl e \<Rightarrow> Inl e | Inr x \<Rightarrow> f x) \<noteq> Inl DepthExceeded"
  using assms by (cases r) auto

lemma execCommand_indentContent_no_depth:
  "execCommand (registry c) (Suc (Suc d)) ''indentContent'' p w \<noteq> Inl DepthExceeded"
proof (cases "selection (es w)")
  case None
  then show ?thesis by (simp add: execCommand_registry_Suc listener_def del: execCommand.simps)
next
  case (Some sel)
  have "listener c (execCommand (registry c) (Suc d)) ''indentContent'' p w \<noteq> Inl DepthExceeded"
    unfolding listener_indentContent [OF Some]
    by (intro sum_case_no_depth parentBlock_no_depth)
      (auto split: sum.splits prod.splits simp: execCommand_basic_no_depth simp del: execCommand.simps
        dest: execCommand_basic_no_depth(1) [THEN notE, rotated])
  then show ?thesis unfolding execCommand_registry_Suc .
qed

lemma execCommand_outdentContent_no_depth:
  "execCommand (registry c) (Suc (Suc d)) ''outdentContent'' p w \<noteq> Inl DepthExceeded"
proof (cases "selection (es w)")
  case None
  then show ?thesis by (simp add: execCommand_registry_Suc listener_def del: execCommand.simps)
next
  case (Some sel)
  have "listener c (execCommand (registry c) (Suc d)) ''outdentContent'' p w \<noteq> Inl DepthExceeded"
    unfolding listener_outdentContent [OF Some]
    by (intro sum_case_no_depth parentBlock_no_depth getNode_no_depth)
      (auto split: sum.splits prod.splits simp: execCommand_basic_no_depth parentBlock_no_depth
        simp del: execCommand.simps)
  then show ?thesis unfolding execCommand_registry_Suc .
qed

lemma execCommand_indent_outdent_depth:
  "execCommand (registry c) (Suc (Suc d)) ''indentContent'' p w =
   execCommand (registry c) (Suc (Suc d')) ''indentContent'' p w"
  "execCommand (registry c) (Suc (Suc d)) ''outdentContent'' p w =
   execCommand (registry c) (Suc (Suc d')) ''outdentContent'' p w"
proof -
  have ins: "execCommand (registry c) (Suc d) ''insertText'' q v =
      execCommand (registry c) (Suc d') ''insertText'' q v" for q v
    by (rule execCommand_basic_depth)
  have del: "execCommand (registry c) (Suc d) ''deleteCharacter'' q v =
      execCommand (registry c) (Suc d') ''deleteCharacter'' q v" for q v
    by (rule execCommand_basic_depth)
  have "listener c (execCommand (registry c) (Suc d)) ''indentContent'' p w =
      listener c (execCommand (registry c) (Suc d')) ''indentContent'' p w"
    by (cases "selection (es w)")
      (simp_all add: listener_def ins del: execCommand.simps split: sum.split prod.split)
  then show "execCommand (registry c) (Suc (Suc d)) ''indentContent'' p w =
      execCommand (registry c) (Suc (Suc d')) ''indentContent'' p w"
    unfolding execCommand_registry_Suc .
  have "listener c (execCommand (registry c) (Suc d)) ''outdentContent'' p w =
      listener c (execCommand (registry c) (Suc d')) ''outdentContent'' p w"
    by (cases "selection (es w)")
      (simp_all add: listener_def del del: execCommand.simps split: sum.split prod.split)
  then show "execCommand (registry c) (Suc (Suc d)) ''outdentContent'' p w =
      execCommand (registry c) (Suc (Suc d')) ''outdentContent'' p w"
    unfolding execCommand_registry_Suc .
qed

lemma execCommand_returns:
  "execCommand (registry c) (Suc (Suc (Suc d))) type payload w \<noteq> Inl DepthExceeded"
  unfolding execCommand_registry_Suc [of c "Suc (Suc d)"]
  by (rule listener_no_depth)
    (rule execCommand_basic_no_depth execCommand_indentContent_no_depth
      execCommand_outdentContent_no_depth)+

lemma execCommand_depth_independent:
  "execCommand (registry c) (Suc (Suc (Suc d))) type payload w =
   execCommand (registry c) (Suc (Suc (Suc d'))) type payload w"
  unfolding execCommand_registry_Suc [of c "Suc (Suc d)"] execCommand_registry_Suc [of c "Suc (Suc d')"]
  by (rule listener_cong_redispatch)
    (rule execCommand_basic_depth execCommand_indent_outdent_depth)+

section \<open>Commands without a selection\<close>

text \<open>
  C3: when the current selection is null, the built-in command listener returns
  \<^verbatim>\<open>false\<close> for every command type and every payload and leaves the node map, the
  selection and the event untouched; no command is exempt. The same holds for a
  dispatch through the editor on which only the built-in listener is registered.
\<close>

theorem null_selection_unhandled:
  assumes "selection (es w) = None"
  shows "listener c exec type payload w = Inr (False, w)
    \<and> execCommand (registry c) (Suc d) type payload w = Inr (False, w)"
  using assms by (simp add: execCommand_registry_Suc listener_def del: execCommand.simps)

theorem null_selection_unhandled_witness:
  "selection (es (example_world 3 None)) = None
   \<and> listener example_core (\<lambda>t p w. Inl TypeError) ''keyTab'' (example_event False) (example_world 3 None)
       = Inr (False, example_world 3 None)
   \<and> execCommand (registry example_core) (Suc 2) ''insertText'' (PString tab) (example_world 3 None)
       = Inr (False, example_world 3 None)"
proof -
  have none: "selection (es (example_world 3 None)) = None"
    by (simp add: example_world_def example_state_def)
  from null_selection_unhandled [OF none, of example_core "\<lambda>t p w. Inl TypeError" "''keyTab''"
      "example_event False" 2 ]
    null_selection_unhandled [OF none, of example_core "\<lambda>t p w. Inl TypeError" "''insertText''"
      "PString tab" 2]
  show ?thesis using none by (simp del: execCommand.simps)
qed

section \<open>Indent levels\<close>

text \<open>
  C1: a node whose indent level is in \<open>[0, 10]\<close> keeps an indent level in \<open>[0, 10]\<close> through
  every sequence of \<^verbatim>\<open>indentContent\<close> and \<^verbatim>\<open>outdentContent\<close> dispatches handled by the
  built-in listener: \<^verbatim>\<open>indentContent\<close> increments only an indent other than 10 and
  \<^verbatim>\<open>outdentContent\<close> decrements only an indent other than 0. In a block that accepts tabs
  the two commands hand over to the core's \<^verbatim>\<open>insertText\<close> and \<^verbatim>\<open>deleteCharacter\<close>, which
  are assumed not to take the indent level of the node out of the range. The sequence
  either ends in such a state or is cut short by an exception of the tree or the core; it
  never stops for lack of dispatch depth.
\<close>

theorem indent_stays_in_range:
  assumes ins: "\<And>s s'. insertText c (PString tab) s = Inr s' \<Longrightarrow> indentInRange s k \<Longrightarrow> indentInRange s' k"
    and del: "\<And>s s'. deleteCharacter c (PBool True) s = Inr s' \<Longrightarrow> indentInRange s k \<Longrightarrow> indentInRange s' k"
    and cmds: "\<forall>(type, payload) \<in> set cs. type = ''indentContent'' \<or> type = ''outdentContent''"
    and init: "indentInRange (es w) k"
  shows "case dispatchAll (execCommand (registry c) (Suc (Suc d))) cs w of
           Inl e \<Rightarrow> e \<noteq> DepthExceeded
         | Inr w' \<Rightarrow> indentInRange (es w') k"
  using cmds init
proof (induction cs arbitrary: w)
  case Nil
  then show ?case by simp
next
  case (Cons a cs)
  let ?E = "execCommand (registry c) (Suc (Suc d))"
  obtain t p where a: "a = (t, p)" by (cases a)
  from Cons.prems(1) a have t: "t = ''indentContent'' \<or> t = ''outdentContent''" by simp
  from Cons.prems(1) have rest: "\<forall>(type, payload) \<in> set cs. type = ''indentContent'' \<or> type = ''outdentContent''"
    by simp
  show ?case
  proof (cases "?E t p w")
    case (Inl e)
    from t have "?E t p w \<noteq> Inl DepthExceeded"
      using execCommand_indentContent_no_depth [of c d p w]
        execCommand_outdentContent_no_depth [of c d p w] by blast
    with Inl have "e \<noteq> DepthExceeded" by auto
    with Inl a show ?thesis by (simp del: execCommand.simps)
  next
    case (Inr r)
    obtain h w1 where r: "r = (h, w1)" by (cases r)
    have "indentInRange (es w1) k"
    proof (rule disjE [OF t])
      assume "t = ''indentContent''"
      with Inr r have "?E ''indentContent'' p w = Inr (h, w1)" by simp
      then show ?thesis using Cons.prems(2) by (rule indentContent_range [rotated]) (rule ins)
    next
      assume "t = ''outdentContent''"
      with Inr r have "?E ''outdentContent'' p w = Inr (h, w1)" by simp
      then show ?thesis using Cons.prems(2) by (rule outdentContent_range [rotated]) (rule del)
    qed
    with rest have "case dispatchAll ?E cs w1 of Inl e \<Rightarrow> e \<noteq> DepthExceeded
         | Inr w' \<Rightarrow> indentInRange (es w') k"
      by (rule Cons.IH)
    with Inr r a show ?thesis by (simp del: execCommand.simps)
  qed
qed

theorem indent_stays_in_range_witness:
  "indentInRange (es (example_world 9 (Some (caret (NodeKey 3) 1)))) (NodeKey 1)
   \<and> finalIndent (dispatchAll (execCommand (registry example_core) 3)
            [(''indentContent'', PUndefined), (''indentContent'', PUndefined), (''outdentContent'', PUndefined)]
            (example_world 9 (Some (caret (NodeKey 3) 1)))) (NodeKey 1) = Some 9
   \<and> (case dispatchAll (execCommand (registry example_core) 3)
            [(''indentContent'', PUndefined), (''indentContent'', PUndefined), (''outdentContent'', PUndefined)]
            (example_world 9 (Some (caret (NodeKey 3) 1))) of
         Inl e \<Rightarrow> False
       | Inr w' \<Rightarrow> indentInRange (es w') (NodeKey 1))"
proof -
  let ?w = "example_world 9 (Some (caret (NodeKey 3) 1))"
  let ?cs = "[(''indentContent'', PUndefined), (''indentContent'', PUndefined), (''outdentContent'', PUndefined)]"
  have init: "indentInRange (es ?w) (NodeKey 1)"
    by (simp add: indentInRange_def example_defs)
  have fin: "finalIndent (dispatchAll (execCommand (registry example_core) 3) ?cs ?w) (NodeKey 1) = Some 9"
    by (simp add: three execCommand_registry_Suc listener_indentContent listener_outdentContent
        example_defs run_defs finalIndent_def indentAt_def del: execCommand.simps)
  then obtain w' where run: "dispatchAll (execCommand (registry example_core) 3) ?cs ?w = Inr w'"
    by (cases "dispatchAll (execCommand (registry example_core) 3) ?cs ?w") (simp_all add: finalIndent_def)
  have cmds: "\<forall>(type, payload) \<in> set ?cs. type = ''indentContent'' \<or> type = ''outdentContent''"
    by simp
  have "indentInRange (es w') (NodeKey 1)"
    using indent_stays_in_range [of example_core "NodeKey 1" ?cs ?w "Suc 0"] cmds init run
      example_insertText_range example_deleteCharacter_range
    by (simp add: three del: execCommand.simps)
  with init fin run show ?thesis by simp
qed

text \<open>
  C2, as stated: \<^verbatim>\<open>indentContent\<close> followed by \<^verbatim>\<open>outdentContent\<close> on a block that does not
  accept tabs ends at the original indent \<open>n\<close>, also at the boundaries 0 and 10. At
  \<open>n = 10\<close> this fails: the paragraph of the example document starts at indent 10, the
  increment is skipped, the decrement is not, and the paragraph ends at indent 9.
\<close>

theorem indent_then_outdent_counterexample:
  "parentBlock (example_state 10 (Some (caret (NodeKey 3) 1))) (anchor (caret (NodeKey 3) 1))
     = Inr (NodeKey 1, example_paragraph 10)
   \<and> \<not> canInsertTab (example_paragraph 10)
   \<and> indentAt (es (example_world 10 (Some (caret (NodeKey 3) 1)))) (NodeKey 1) = Some 10
   \<and> finalIndent (dispatchAll (execCommand (registry example_core) 3)
          [(''indentContent'', PUndefined), (''outdentContent'', PUndefined)]
          (example_world 10 (Some (caret (NodeKey 3) 1)))) (NodeKey 1) = Some 9"
  by (simp add: three execCommand_registry_Suc listener_indentContent listener_outdentContent
      example_defs run_defs finalIndent_def indentAt_def
      del: execCommand.simps)

text \<open>
  C2, amended: on a block that does not accept tabs and has an indent \<open>n\<close> with
  \<open>0 \<le> n \<le> 9\<close>, \<^verbatim>\<open>indentContent\<close> followed by \<^verbatim>\<open>outdentContent\<close> restores the editor state,
  so the indent ends at \<open>n\<close> (this includes the boundary 0). At \<open>n = 10\<close> the first command
  changes nothing and the pair ends at indent 9.
\<close>

theorem indent_then_outdent:
  assumes sel: "selection (es w) = Some sel"
    and blk: "parentBlock (es w) (anchor sel) = Inr (bk, b)"
    and plain: "\<not> canInsertTab b"
    and lo: "0 \<le> indent b" and hi: "indent b \<le> 10"
  shows "dispatchAll (execCommand (registry c) (Suc d))
           [(''indentContent'', p), (''outdentContent'', q)] w =
         Inr (if indent b = 10 then setIndent bk b 9 w else w)"
proof (cases "indent b = 10")
  case True
  with exec_indentContent_plain [OF sel blk plain] exec_outdentContent_plain [OF sel blk plain]
  show ?thesis by (simp del: execCommand.simps)
next
  case False
  let ?w1 = "setIndent bk b (indent b + 1) w"
  let ?b1 = "b\<lparr>indent := indent b + 1\<rparr>"
  have first: "execCommand (registry c) (Suc d) ''indentContent'' p w = Inr (True, ?w1)"
    using exec_indentContent_plain [OF sel blk plain] False by simp
  have sel1: "selection (es ?w1) = Some sel" using sel by simp
  have blk1: "parentBlock (es ?w1) (anchor sel) = Inr (bk, ?b1)"
    using blk by (rule parentBlock_setIndent)
  have plain1: "\<not> canInsertTab ?b1" using plain by (simp add: canInsertTab_def)
  have "execCommand (registry c) (Suc d) ''outdentContent'' q ?w1 =
      Inr (True, setIndent bk ?b1 (indent b) ?w1)"
    using exec_outdentContent_plain [OF sel1 blk1 plain1] lo by simp
  also have "setIndent bk ?b1 (indent b) ?w1 = w"
    using parentBlock_lookup [OF blk] by (rule setIndent_back)
  finally show ?thesis using first False by (simp del: execCommand.simps)
qed


theorem indent_then_outdent_witness:
  "selection (es (example_world 4 (Some (caret (NodeKey 3) 1)))) = Some (caret (NodeKey 3) 1)
   \<and> parentBlock (es (example_world 4 (Some (caret (NodeKey 3) 1)))) (anchor (caret (NodeKey 3) 1))
       = Inr (NodeKey 1, example_paragraph 4)
   \<and> \<not> canInsertTab (example_paragraph 4)
   \<and> dispatchAll (execCommand (registry example_core) (Suc 2))
         [(''indentContent'', PUndefined), (''outdentContent'', PUndefined)]
         (example_world 4 (Some (caret (NodeKey 3) 1)))
       = Inr (example_world 4 (Some (caret (NodeKey 3) 1)))"
proof -
  let ?sel = "caret (NodeKey 3) 1"
  let ?w = "example_world 4 (Some ?sel)"
  have sel: "selection (es ?w) = Some ?sel"
    by (simp add: example_defs)
  have blk: "parentBlock (es ?w) (anchor ?sel) = Inr (NodeKey 1, example_paragraph 4)"
    by (simp add: example_defs run_defs)
  have plain: "\<not> canInsertTab (example_paragraph 4)"
    by (simp add: example_paragraph_def canInsertTab_def)
  have lo: "0 \<le> indent (example_paragraph 4)" and hi: "indent (example_paragraph 4) \<le> 10"
    by (simp_all add: example_paragraph_def)
  from indent_then_outdent [OF sel blk plain lo hi, of example_core 2 PUndefined PUndefined]
  have "dispatchAll (execCommand (registry example_core) (Suc 2))
         [(''indentContent'', PUndefined), (''outdentContent'', PUndefined)] ?w = Inr ?w"
    by (simp add: example_paragraph_def del: execCommand.simps dispatchAll.simps)
  with sel blk plain show ?thesis by simp
qed

section \<open>Tabs in code blocks\<close>

lemma listener_indentContent_tab:
  assumes sel: "selection (es w) = Some sel"
    and blk: "parentBlock (es w) (anchor sel) = Inr (bk, b)"
    and tabs: "canInsertTab b"
  shows "listener c exec ''indentContent'' payload w =
           (case exec ''insertText'' (PString tab) w of
              Inl e \<Rightarrow> Inl e
            | Inr (handled, w') \<Rightarrow> Inr (True, w'))"
  using assms by (simp add: listener_indentContent)

lemma exec_indentContent_tab:
  assumes sel: "selection (es w) = Some sel"
    and blk: "parentBlock (es w) (anchor sel) = Inr (bk, b)"
    and tabs: "canInsertTab b"
  shows "execCommand (registry c) (Suc (Suc d)) ''indentContent'' payload w =
           (case insertText c (PString tab) (es w) of
              Inl x \<Rightarrow> Inl (CoreThrow x)
            | Inr s' \<Rightarrow> Inr (True, w\<lparr>es := s'\<rparr>))"
proof -
  have "execCommand (registry c) (Suc (Suc d)) ''indentContent'' payload w =
      listener c (execCommand (registry c) (Suc d)) ''indentContent'' payload w"
    by (simp only: execCommand_registry_Suc)
  also have "\<dots> = (case execCommand (registry c) (Suc d) ''insertText'' (PString tab) w of
              Inl e \<Rightarrow> Inl e
            | Inr (handled, w') \<Rightarrow> Inr (True, w'))"
    using assms by (rule listener_indentContent_tab)
  also have "\<dots> = (case insertText c (PString tab) (es w) of
              Inl x \<Rightarrow> Inl (CoreThrow x)
            | Inr s' \<Rightarrow> Inr (True, w\<lparr>es := s'\<rparr>))"
    by (simp only: exec_insertText [OF sel] returning_call split: sum.splits) (simp split: sum.splits)
  finally show ?thesis .
qed

text \<open>
  C4: when \<^verbatim>\<open>indentContent\<close> is dispatched and the resolved parent block accepts literal
  tabs, the listener dispatches \<^verbatim>\<open>insertText\<close> with the one-character string of a tab and
  reports the command handled; it writes no indent level itself, so the state it returns
  is the one the re-dispatch returned. On an editor with the built-in listener alone the
  outcome is that of the core's \<^verbatim>\<open>insertText\<close>, directly and through \<^verbatim>\<open>keyTab\<close> without
  shift (which also consumes the event), and the indent of the block is the one it had
  whenever that operation leaves it alone.
\<close>

theorem indentContent_inserts_tab:
  assumes sel: "selection (es w) = Some sel"
    and blk: "parentBlock (es w) (anchor sel) = Inr (bk, b)"
    and tabs: "canInsertTab b"
  shows "listener c exec ''indentContent'' payload w =
           (case exec ''insertText'' (PString tab) w of
              Inl e \<Rightarrow> Inl e
            | Inr (handled, w') \<Rightarrow> Inr (True, w'))
    \<and> execCommand (registry c) (Suc (Suc d)) ''indentContent'' payload w =
           (case insertText c (PString tab) (es w) of
              Inl x \<Rightarrow> Inl (CoreThrow x)
            | Inr s' \<Rightarrow> Inr (True, w\<lparr>es := s'\<rparr>))
    \<and> (\<not> shiftKey e \<longrightarrow>
         execCommand (registry c) (Suc (Suc (Suc d))) ''keyTab'' (PEvent e) w =
           (case insertText c (PString tab) (es w) of
              Inl x \<Rightarrow> Inl (CoreThrow x)
            | Inr s' \<Rightarrow> Inr (True, \<lparr>es = s', prevented = prevented w @ [event_id e]\<rparr>)))
    \<and> ((\<forall>s'. insertText c (PString tab) (es w) = Inr s' \<longrightarrow> indentAt s' bk = indentAt (es w) bk) \<longrightarrow>
         (\<forall>h w'. execCommand (registry c) (Suc (Suc d)) ''indentContent'' payload w = Inr (h, w') \<longrightarrow>
            h \<and> indentAt (es w') bk = Some (indent b)))"
proof (intro conjI impI allI)
  show "listener c exec ''indentContent'' payload w =
           (case exec ''insertText'' (PString tab) w of
              Inl e \<Rightarrow> Inl e
            | Inr (handled, w') \<Rightarrow> Inr (True, w'))"
    using assms by (rule listener_indentContent_tab)
next
  show "execCommand (registry c) (Suc (Suc d)) ''indentContent'' payload w =
           (case insertText c (PString tab) (es w) of
              Inl x \<Rightarrow> Inl (CoreThrow x)
            | Inr s' \<Rightarrow> Inr (True, w\<lparr>es := s'\<rparr>))"
    using assms by (rule exec_indentContent_tab)
next
  assume noshift: "\<not> shiftKey e"
  let ?w1 = "w\<lparr>prevented := prevented w @ [event_id e]\<rparr>"
  have sel1: "selection (es ?w1) = Some sel" using sel by simp
  have blk1: "parentBlock (es ?w1) (anchor sel) = Inr (bk, b)" using blk by simp
  have "execCommand (registry c) (Suc (Suc (Suc d))) ''keyTab'' (PEvent e) w =
      listener c (execCommand (registry c) (Suc (Suc d))) ''keyTab'' (PEvent e) w"
    by (simp only: execCommand_registry_Suc)
  also have "\<dots> = execCommand (registry c) (Suc (Suc d)) ''indentContent'' PUndefined ?w1"
    using noshift by (simp add: listener_keyTab [OF sel] preventDefault_event holdsShift_event
        del: execCommand.simps)
  also have "\<dots> = (case insertText c (PString tab) (es ?w1) of
              Inl x \<Rightarrow> Inl (CoreThrow x)
            | Inr s' \<Rightarrow> Inr (True, ?w1\<lparr>es := s'\<rparr>))"
    using sel1 blk1 tabs by (rule exec_indentContent_tab)
  finally show "execCommand (registry c) (Suc (Suc (Suc d))) ''keyTab'' (PEvent e) w =
           (case insertText c (PString tab) (es w) of
              Inl x \<Rightarrow> Inl (CoreThrow x)
            | Inr s' \<Rightarrow> Inr (True, \<lparr>es = s', prevented = prevented w @ [event_id e]\<rparr>))"
    by (simp split: sum.splits)
next
  fix h w'
  assume keep: "\<forall>s'. insertText c (PString tab) (es w) = Inr s' \<longrightarrow> indentAt s' bk = indentAt (es w) bk"
    and run: "execCommand (registry c) (Suc (Suc d)) ''indentContent'' payload w = Inr (h, w')"
  from run exec_indentContent_tab [OF assms, of c d payload]
  obtain s' where s': "insertText c (PString tab) (es w) = Inr s'" and h: "h" and w': "w' = w\<lparr>es := s'\<rparr>"
    by (auto split: sum.splits)
  show "h" by (rule h)
  from keep s' have "indentAt s' bk = indentAt (es w) bk" by blast
  then show "indentAt (es w') bk = Some (indent b)"
    using w' parentBlock_lookup [OF blk] by (simp add: indentAt_def)
qed

theorem indentContent_inserts_tab_witness:
  "selection (es (example_world 0 (Some (caret (NodeKey 4) 0)))) = Some (caret (NodeKey 4) 0)
   \<and> parentBlock (es (example_world 0 (Some (caret (NodeKey 4) 0)))) (anchor (caret (NodeKey 4) 0))
       = Inr (NodeKey 2, example_code)
   \<and> canInsertTab example_code
   \<and> handledOf (execCommand (registry example_core) (Suc (Suc (Suc 0))) ''keyTab'' (example_event False)
        (example_world 0 (Some (caret (NodeKey 4) 0)))) = Some True
   \<and> contentAfter (execCommand (registry example_core) (Suc (Suc (Suc 0))) ''keyTab'' (example_event False)
        (example_world 0 (Some (caret (NodeKey 4) 0)))) (NodeKey 4) = Some [9, 9, 120]
   \<and> indentAfter (execCommand (registry example_core) (Suc (Suc (Suc 0))) ''keyTab'' (example_event False)
        (example_world 0 (Some (caret (NodeKey 4) 0)))) (NodeKey 2) = Some 0
   \<and> preventedAfter (execCommand (registry example_core) (Suc (Suc (Suc 0))) ''keyTab'' (example_event False)
        (example_world 0 (Some (caret (NodeKey 4) 0)))) = Some [7]"
proof -
  let ?sel = "caret (NodeKey 4) 0"
  let ?w = "example_world 0 (Some ?sel)"
  have sel: "selection (es ?w) = Some ?sel"
    by (simp add: example_defs)
  have blk: "parentBlock (es ?w) (anchor ?sel) = Inr (NodeKey 2, example_code)"
    by (simp add: example_defs run_defs)
  have tabs: "canInsertTab example_code"
    by (simp add: example_code_def canInsertTab_def)
  have ins: "example_insertText (PString tab) (es ?w) =
      Inr ((es ?w)\<lparr>nodes := (nodes (es ?w))(NodeKey 4 \<mapsto>
              \<lparr>kind = TextNode, parent = Some (NodeKey 2), children = [], content = [9, 9, 120], indent = 0\<rparr>),
            selection := Some (caret (NodeKey 4) 1)\<rparr>)"
    by (simp add: example_insertText_def example_defs tab_def Let_def)
  note tab_case = indentContent_inserts_tab [OF sel blk tabs, of example_core "\<lambda>t p w. Inl TypeError"
      PUndefined 0 "\<lparr>event_id = 7, shiftKey = False\<rparr>"]
  from tab_case [THEN conjunct2, THEN conjunct2, THEN conjunct1]
  have run: "execCommand (registry example_core) (Suc (Suc (Suc 0))) ''keyTab'' (example_event False) ?w =
      (case example_insertText (PString tab) (es ?w) of
         Inl x \<Rightarrow> Inl (CoreThrow x)
       | Inr s' \<Rightarrow> Inr (True, \<lparr>es = s', prevented = prevented ?w @ [event_id \<lparr>event_id = 7, shiftKey = False\<rparr>]\<rparr>))"
    by (simp add: example_event_def del: execCommand.simps)
  show ?thesis
    unfolding run ins using sel blk tabs
    by (simp add: handledOf_def contentAfter_def indentAfter_def preventedAfter_def indentAt_def
        example_defs)
qed

lemma listener_outdentContent_resolved:
  assumes sel: "selection (es w) = Some sel"
    and blk: "parentBlock (es w) (anchor sel) = Inr (bk, b)"
  shows "listener c exec ''outdentContent'' payload w =
      (if canInsertTab b then
         (if js_index (getTextContent c (es w) (pkey (anchor sel))) (poffset (anchor sel) - 1) = Some 9 then
            (case exec ''deleteCharacter'' (PBool True) w of
               Inl e \<Rightarrow> Inl e
             | Inr (handled, w') \<Rightarrow> Inr (True, w'))
          else Inr (True, w))
       else Inr (True, if indent b \<noteq> 0 then setIndent bk b (indent b - 1) w else w))"
proof -
  from parentBlock_getNode [OF blk] obtain an where "getNode (es w) (anchor sel) = Inr (pkey (anchor sel), an)"
    by blast
  with sel blk show ?thesis by (simp add: listener_outdentContent getIndent_def)
qed

lemma indentAt_setIndent: "indentAt (es (setIndent bk b v w)) bk = Some v"
  by (simp add: indentAt_def setIndent_def)

text \<open>
  C5: \<^verbatim>\<open>outdentContent\<close> on a resolved parent block. If the block accepts tabs, the
  listener dispatches \<^verbatim>\<open>deleteCharacter\<close> with \<^verbatim>\<open>true\<close> exactly when the text content of
  the anchor node has a code unit immediately before the anchor offset (the offset is at
  least 1 and at most the length of the text) and that code unit is a tab; in every other
  case it changes nothing. If the block does not accept tabs, its indent is decremented
  unless it is 0, which for an indent that is not negative is \<open>max 0 (indent - 1)\<close>.
  Whenever the command returns, it reports handled.
\<close>

theorem outdentContent_behaviour:
  assumes sel: "selection (es w) = Some sel"
    and blk: "parentBlock (es w) (anchor sel) = Inr (bk, b)"
  shows "listener c exec ''outdentContent'' payload w =
      (if canInsertTab b then
         (if 1 \<le> poffset (anchor sel)
             \<and> poffset (anchor sel) \<le> int (length (getTextContent c (es w) (pkey (anchor sel))))
             \<and> getTextContent c (es w) (pkey (anchor sel)) ! nat (poffset (anchor sel) - 1) = 9 then
            (case exec ''deleteCharacter'' (PBool True) w of
               Inl e \<Rightarrow> Inl e
             | Inr (handled, w') \<Rightarrow> Inr (True, w'))
          else Inr (True, w))
       else Inr (True, if indent b \<noteq> 0 then setIndent bk b (indent b - 1) w else w))
    \<and> (\<not> canInsertTab b \<longrightarrow> 0 \<le> indent b \<longrightarrow>
          indentAfter (listener c exec ''outdentContent'' payload w) bk = Some (max 0 (indent b - 1)))
    \<and> (\<forall>h w'. listener c exec ''outdentContent'' payload w = Inr (h, w') \<longrightarrow> h)"
proof -
  let ?txt = "getTextContent c (es w) (pkey (anchor sel))"
  let ?off = "poffset (anchor sel)"
  have test: "(js_index ?txt (?off - 1) = Some 9) =
      (1 \<le> ?off \<and> ?off \<le> int (length ?txt) \<and> ?txt ! nat (?off - 1) = 9)"
    by (auto simp: js_index_def)
  note eq = listener_outdentContent_resolved [OF sel blk, of c exec payload, unfolded test]
  have clamp: "indentAfter (listener c exec ''outdentContent'' payload w) bk = Some (max 0 (indent b - 1))"
    if "\<not> canInsertTab b" and "0 \<le> indent b"
    using that parentBlock_lookup [OF blk]
    by (simp add: eq indentAfter_def indentAt_setIndent) (simp add: indentAt_def)
  have handled: "h" if "listener c exec ''outdentContent'' payload w = Inr (h, w')" for h w'
    using that unfolding eq by (auto split: if_splits sum.splits)
  from eq clamp handled show ?thesis by blast
qed

theorem outdentContent_behaviour_witness:
  "selection (es (example_world 0 (Some (caret (NodeKey 4) 1)))) = Some (caret (NodeKey 4) 1)
   \<and> parentBlock (es (example_world 0 (Some (caret (NodeKey 4) 1)))) (anchor (caret (NodeKey 4) 1))
       = Inr (NodeKey 2, example_code)
   \<and> listener example_core (execCommand (registry example_core) (Suc 0)) ''outdentContent'' PUndefined
        (example_world 0 (Some (caret (NodeKey 4) 1)))
       = execCommand (registry example_core) (Suc 0) ''deleteCharacter'' (PBool True)
           (example_world 0 (Some (caret (NodeKey 4) 1)))
   \<and> contentAfter (listener example_core (execCommand (registry example_core) (Suc 0)) ''outdentContent'' PUndefined
        (example_world 0 (Some (caret (NodeKey 4) 1)))) (NodeKey 4) = Some [120]
   \<and> selection (es (example_world 0 (Some (caret (NodeKey 4) 2)))) = Some (caret (NodeKey 4) 2)
   \<and> parentBlock (es (example_world 0 (Some (caret (NodeKey 4) 2)))) (anchor (caret (NodeKey 4) 2))
       = Inr (NodeKey 2, example_code)
   \<and> listener example_core (execCommand (registry example_core) (Suc 0)) ''outdentContent'' PUndefined
        (example_world 0 (Some (caret (NodeKey 4) 2)))
       = Inr (True, example_world 0 (Some (caret (NodeKey 4) 2)))
   \<and> selection (es (example_world 0 (Some (caret (NodeKey 4) 3)))) = Some (caret (NodeKey 4) 3)
   \<and> parentBlock (es (example_world 0 (Some (caret (NodeKey 4) 3)))) (anchor (caret (NodeKey 4) 3))
       = Inr (NodeKey 2, example_code)
   \<and> listener example_core (execCommand (registry example_core) (Suc 0)) ''outdentContent'' PUndefined
        (example_world 0 (Some (caret (NodeKey 4) 3)))
       = Inr (True, example_world 0 (Some (caret (NodeKey 4) 3)))
   \<and> selection (es (example_world 3 (Some (caret (NodeKey 3) 1)))) = Some (caret (NodeKey 3) 1)
   \<and> parentBlock (es (example_world 3 (Some (caret (NodeKey 3) 1)))) (anchor (caret (NodeKey 3) 1))
       = Inr (NodeKey 1, example_paragraph 3)
   \<and> indentAfter (listener example_core (execCommand (registry example_core) (Suc 0)) ''outdentContent'' PUndefined
        (example_world 3 (Some (caret (NodeKey 3) 1)))) (NodeKey 1) = Some 2"
proof -
  let ?sel = "caret (NodeKey 4) 1"
  let ?w = "example_world 0 (Some ?sel)"
  let ?selx = "caret (NodeKey 4) 2"
  let ?wx = "example_world 0 (Some ?selx)"
  let ?sele = "caret (NodeKey 4) 3"
  let ?we = "example_world 0 (Some ?sele)"
  let ?sel' = "caret (NodeKey 3) 1"
  let ?w' = "example_world 3 (Some ?sel')"
  let ?ex = "execCommand (registry example_core) (Suc 0)"
  have sel: "selection (es ?w) = Some ?sel" and sel': "selection (es ?w') = Some ?sel'"
    and selx: "selection (es ?wx) = Some ?selx" and sele: "selection (es ?we) = Some ?sele"
    by (simp_all add: example_defs)
  have blk: "parentBlock (es ?w) (anchor ?sel) = Inr (NodeKey 2, example_code)"
    and blk': "parentBlock (es ?w') (anchor ?sel') = Inr (NodeKey 1, example_paragraph 3)"
    and blkx: "parentBlock (es ?wx) (anchor ?selx) = Inr (NodeKey 2, example_code)"
    and blke: "parentBlock (es ?we) (anchor ?sele) = Inr (NodeKey 2, example_code)"
    by (simp_all add: example_defs run_defs)
  have del: "?ex ''deleteCharacter'' (PBool True) ?w =
      Inr (True, ?w\<lparr>es := (es ?w)\<lparr>nodes := (nodes (es ?w))(NodeKey 4 \<mapsto>
              \<lparr>kind = TextNode, parent = Some (NodeKey 2), children = [], content = [120], indent = 0\<rparr>),
            selection := Some (caret (NodeKey 4) 0)\<rparr>\<rparr>)"
    by (simp only: exec_deleteCharacter [OF sel] returning_call)
      (simp add: example_deleteCharacter_def example_defs Let_def)
  have tabs: "canInsertTab example_code"
    by (simp add: example_code_def canInsertTab_def)
  have cont: "getTextContent example_core (es ?w) (pkey (anchor ?sel)) = [9, 120]"
    "getTextContent example_core (es ?wx) (pkey (anchor ?selx)) = [9, 120]"
    "getTextContent example_core (es ?we) (pkey (anchor ?sele)) = [9, 120]"
    by (simp_all add: example_defs)
  have offs: "poffset (anchor ?sel) = 1" "poffset (anchor ?selx) = 2" "poffset (anchor ?sele) = 3"
    by (simp_all add: caret_def)
  note code_case = outdentContent_behaviour [OF sel blk, of example_core ?ex PUndefined, THEN conjunct1]
  have one: "listener example_core ?ex ''outdentContent'' PUndefined ?w = ?ex ''deleteCharacter'' (PBool True) ?w"
    by (subst code_case, simp only: tabs cont offs if_True, simp only: del, simp)
  note other_case = outdentContent_behaviour [OF selx blkx, of example_core ?ex PUndefined, THEN conjunct1]
  have notab: "listener example_core ?ex ''outdentContent'' PUndefined ?wx = Inr (True, ?wx)"
    by (subst other_case, simp only: tabs cont offs if_True, simp)
  note end_case = outdentContent_behaviour [OF sele blke, of example_core ?ex PUndefined, THEN conjunct1]
  have beyond: "listener example_core ?ex ''outdentContent'' PUndefined ?we = Inr (True, ?we)"
    by (subst end_case, simp only: tabs cont offs if_True, simp)
  have plain: "\<not> canInsertTab (example_paragraph 3)" and lo: "0 \<le> indent (example_paragraph 3)"
    by (simp_all add: example_paragraph_def canInsertTab_def)
  from outdentContent_behaviour [OF sel' blk', of example_core ?ex PUndefined, THEN conjunct2, THEN conjunct1]
    plain lo
  have two: "indentAfter (listener example_core ?ex ''outdentContent'' PUndefined ?w') (NodeKey 1) = Some 2"
    by (simp add: example_paragraph_def del: execCommand.simps)
  have three': "contentAfter (listener example_core ?ex ''outdentContent'' PUndefined ?w) (NodeKey 4) = Some [120]"
    unfolding one del by (simp add: contentAfter_def)
  from sel sel' selx sele blk blk' blkx blke one two three' notab beyond
  show ?thesis by (simp del: execCommand.simps)
qed


text \<open>
  C10: \<^verbatim>\<open>outdentContent\<close> in a block that accepts tabs with the anchor at offset 0. The
  index \<open>-1\<close> is outside every string, the lookup gives no character, and the listener
  returns handled with the state untouched whatever the dispatcher would have done: no
  re-dispatch takes place and nothing faults.
\<close>

theorem outdentContent_at_offset_zero:
  assumes sel: "selection (es w) = Some sel"
    and blk: "parentBlock (es w) (anchor sel) = Inr (bk, b)"
    and tabs: "canInsertTab b"
    and zero: "poffset (anchor sel) = 0"
  shows "js_index (getTextContent c (es w) (pkey (anchor sel))) (poffset (anchor sel) - 1) = None
    \<and> listener c exec ''outdentContent'' payload w = Inr (True, w)"
proof -
  have none: "js_index (getTextContent c (es w) (pkey (anchor sel))) (poffset (anchor sel) - 1) = None"
    using zero by (simp add: js_index_def)
  with listener_outdentContent_resolved [OF sel blk, of c exec payload] tabs show ?thesis by simp
qed

theorem outdentContent_at_offset_zero_witness:
  "selection (es (example_world 0 (Some (caret (NodeKey 4) 0)))) = Some (caret (NodeKey 4) 0)
   \<and> parentBlock (es (example_world 0 (Some (caret (NodeKey 4) 0)))) (anchor (caret (NodeKey 4) 0))
       = Inr (NodeKey 2, example_code)
   \<and> canInsertTab example_code
   \<and> poffset (anchor (caret (NodeKey 4) 0)) = 0
   \<and> listener example_core (\<lambda>t p w. Inl DepthExceeded) ''outdentContent'' PUndefined
        (example_world 0 (Some (caret (NodeKey 4) 0)))
       = Inr (True, example_world 0 (Some (caret (NodeKey 4) 0)))"
proof -
  let ?sel = "caret (NodeKey 4) 0"
  let ?w = "example_world 0 (Some ?sel)"
  have sel: "selection (es ?w) = Some ?sel"
    by (simp add: example_defs)
  have blk: "parentBlock (es ?w) (anchor ?sel) = Inr (NodeKey 2, example_code)"
    by (simp add: example_defs run_defs)
  have tabs: "canInsertTab example_code"
    by (simp add: example_code_def canInsertTab_def)
  have zero: "poffset (anchor ?sel) = 0"
    by (simp add: caret_def)
  from outdentContent_at_offset_zero [OF sel blk tabs zero, of example_core "\<lambda>t p w. Inl DepthExceeded" PUndefined]
    sel blk tabs zero
  show ?thesis by simp
qed

section \<open>Key commands\<close>

text \<open>
  C6: \<^verbatim>\<open>keyEnter\<close> with a selection. The listener first consumes the event, then
  dispatches \<^verbatim>\<open>insertLineBreak\<close> when shift is held and \<^verbatim>\<open>insertParagraph\<close> otherwise, on
  the state in which the event is already consumed, and returns what that dispatch
  returns, handled or not. With the built-in listener alone the dispatch is handled by
  the core operation.
\<close>

theorem keyEnter_consumes_and_redispatches:
  assumes sel: "selection (es w) = Some sel"
  shows "listener c exec ''keyEnter'' (PEvent e) w =
           exec (if shiftKey e then ''insertLineBreak'' else ''insertParagraph'') PUndefined
             (w\<lparr>prevented := prevented w @ [event_id e]\<rparr>)
    \<and> execCommand (registry c) (Suc (Suc d)) ''keyEnter'' (PEvent e) w =
           returning True
             (call (if shiftKey e then insertLineBreak c PUndefined else insertParagraph c)
                (w\<lparr>prevented := prevented w @ [event_id e]\<rparr>))"
proof
  show first: "listener c exec ''keyEnter'' (PEvent e) w =
           exec (if shiftKey e then ''insertLineBreak'' else ''insertParagraph'') PUndefined
             (w\<lparr>prevented := prevented w @ [event_id e]\<rparr>)" for exec
    by (simp add: listener_keyEnter [OF sel] preventDefault_event holdsShift_event)
  let ?w1 = "w\<lparr>prevented := prevented w @ [event_id e]\<rparr>"
  have sel1: "selection (es ?w1) = Some sel" using sel by simp
  have "execCommand (registry c) (Suc (Suc d)) ''keyEnter'' (PEvent e) w =
      listener c (execCommand (registry c) (Suc d)) ''keyEnter'' (PEvent e) w"
    by (simp only: execCommand_registry_Suc)
  also have "\<dots> = execCommand (registry c) (Suc d)
      (if shiftKey e then ''insertLineBreak'' else ''insertParagraph'') PUndefined ?w1"
    by (rule first)
  also have "\<dots> = returning True
      (call (if shiftKey e then insertLineBreak c PUndefined else insertParagraph c) ?w1)"
    by (simp add: exec_insertLineBreak [OF sel1] exec_insertParagraph [OF sel1] del: execCommand.simps)
  finally show "execCommand (registry c) (Suc (Suc d)) ''keyEnter'' (PEvent e) w =
      returning True
        (call (if shiftKey e then insertLineBreak c PUndefined else insertParagraph c) ?w1)" .
qed

theorem keyEnter_consumes_and_redispatches_witness:
  "selection (es (example_world 0 (Some (caret (NodeKey 3) 1)))) = Some (caret (NodeKey 3) 1)
   \<and> listener example_core (\<lambda>t p w. Inr (False, w)) ''keyEnter'' (example_event True)
        (example_world 0 (Some (caret (NodeKey 3) 1)))
       = Inr (False, (example_world 0 (Some (caret (NodeKey 3) 1)))\<lparr>prevented := [7]\<rparr>)
   \<and> execCommand (registry example_core) (Suc (Suc 0)) ''keyEnter'' (example_event False)
        (example_world 0 (Some (caret (NodeKey 3) 1)))
       = Inr (True, (example_world 0 (Some (caret (NodeKey 3) 1)))\<lparr>prevented := [7]\<rparr>)"
proof -
  let ?sel = "caret (NodeKey 3) 1"
  let ?w = "example_world 0 (Some ?sel)"
  have sel: "selection (es ?w) = Some ?sel"
    by (simp add: example_defs)
  have ops: "insertParagraph example_core = Inr"
    by (simp add: example_core_def)
  from keyEnter_consumes_and_redispatches [OF sel, of example_core "\<lambda>t p w. Inr (False, w)"
      "\<lparr>event_id = 7, shiftKey = True\<rparr>" 0, THEN conjunct1]
  have one: "listener example_core (\<lambda>t p w. Inr (False, w)) ''keyEnter'' (example_event True) ?w
      = Inr (False, ?w\<lparr>prevented := [7]\<rparr>)"
    by (simp add: example_event_def example_world_def)
  from keyEnter_consumes_and_redispatches [OF sel, of example_core "\<lambda>t p w. Inr (False, w)"
      "\<lparr>event_id = 7, shiftKey = False\<rparr>" 0, THEN conjunct2]
  have two: "execCommand (registry example_core) (Suc (Suc 0)) ''keyEnter'' (example_event False) ?w
      = Inr (True, ?w\<lparr>prevented := [7]\<rparr>)"
    by (simp add: example_event_def example_world_def ops returning_def call_def del: execCommand.simps)
  from sel one two show ?thesis by (simp del: execCommand.simps)
qed


text \<open>
  C7: \<^verbatim>\<open>keyBackspace\<close> and \<^verbatim>\<open>keyDelete\<close> with a selection. The listener first consumes the
  event, then dispatches \<^verbatim>\<open>deleteCharacter\<close> with \<^verbatim>\<open>true\<close> for backspace and \<^verbatim>\<open>false\<close> for
  delete and returns exactly the result of that dispatch. With the built-in listener
  alone the command is handled; where the core has nothing to delete in that direction
  and leaves the editor state as it is, the only effect is the consumed event.
\<close>

theorem keyBackspace_keyDelete_redispatch:
  assumes sel: "selection (es w) = Some sel"
  shows "listener c exec ''keyBackspace'' (PEvent e) w =
           exec ''deleteCharacter'' (PBool True) (w\<lparr>prevented := prevented w @ [event_id e]\<rparr>)
    \<and> listener c exec ''keyDelete'' (PEvent e) w =
           exec ''deleteCharacter'' (PBool False) (w\<lparr>prevented := prevented w @ [event_id e]\<rparr>)
    \<and> execCommand (registry c) (Suc (Suc d)) ''keyBackspace'' (PEvent e) w =
           returning True (call (deleteCharacter c (PBool True)) (w\<lparr>prevented := prevented w @ [event_id e]\<rparr>))
    \<and> execCommand (registry c) (Suc (Suc d)) ''keyDelete'' (PEvent e) w =
           returning True (call (deleteCharacter c (PBool False)) (w\<lparr>prevented := prevented w @ [event_id e]\<rparr>))
    \<and> (deleteCharacter c (PBool True) (es w) = Inr (es w) \<longrightarrow>
          execCommand (registry c) (Suc (Suc d)) ''keyBackspace'' (PEvent e) w =
            Inr (True, w\<lparr>prevented := prevented w @ [event_id e]\<rparr>))
    \<and> (deleteCharacter c (PBool False) (es w) = Inr (es w) \<longrightarrow>
          execCommand (registry c) (Suc (Suc d)) ''keyDelete'' (PEvent e) w =
            Inr (True, w\<lparr>prevented := prevented w @ [event_id e]\<rparr>))"
proof -
  let ?w1 = "w\<lparr>prevented := prevented w @ [event_id e]\<rparr>"
  have sel1: "selection (es ?w1) = Some sel" using sel by simp
  have bsp: "listener c exec ''keyBackspace'' (PEvent e) w = exec ''deleteCharacter'' (PBool True) ?w1"
    for exec
    by (simp add: listener_keyBackspace [OF sel] preventDefault_event)
  have del: "listener c exec ''keyDelete'' (PEvent e) w = exec ''deleteCharacter'' (PBool False) ?w1"
    for exec
    by (simp add: listener_keyDelete [OF sel] preventDefault_event)
  have xback: "execCommand (registry c) (Suc (Suc d)) ''keyBackspace'' (PEvent e) w =
      returning True (call (deleteCharacter c (PBool True)) ?w1)"
    by (simp only: execCommand_registry_Suc [of c "Suc d"] bsp exec_deleteCharacter [OF sel1])
  have xdel: "execCommand (registry c) (Suc (Suc d)) ''keyDelete'' (PEvent e) w =
      returning True (call (deleteCharacter c (PBool False)) ?w1)"
    by (simp only: execCommand_registry_Suc [of c "Suc d"] del exec_deleteCharacter [OF sel1])
  have noop: "returning True (call f ?w1) = Inr (True, ?w1)" if "f (es w) = Inr (es w)" for f
    using that by (simp add: returning_def call_def)
  from bsp del xback xdel noop show ?thesis by simp
qed

theorem keyBackspace_keyDelete_redispatch_witness:
  "selection (es (example_world 0 (Some (caret (NodeKey 3) 0)))) = Some (caret (NodeKey 3) 0)
   \<and> deleteCharacter example_core (PBool True) (es (example_world 0 (Some (caret (NodeKey 3) 0))))
       = Inr (es (example_world 0 (Some (caret (NodeKey 3) 0))))
   \<and> execCommand (registry example_core) (Suc (Suc 0)) ''keyBackspace'' (example_event False)
        (example_world 0 (Some (caret (NodeKey 3) 0)))
       = Inr (True, (example_world 0 (Some (caret (NodeKey 3) 0)))\<lparr>prevented := [7]\<rparr>)
   \<and> listener example_core (\<lambda>t p w. Inr (False, w)) ''keyDelete'' (example_event False)
        (example_world 0 (Some (caret (NodeKey 3) 0)))
       = Inr (False, (example_world 0 (Some (caret (NodeKey 3) 0)))\<lparr>prevented := [7]\<rparr>)"
proof -
  let ?sel = "caret (NodeKey 3) 0"
  let ?w = "example_world 0 (Some ?sel)"
  have sel: "selection (es ?w) = Some ?sel"
    by (simp add: example_defs)
  have start: "deleteCharacter example_core (PBool True) (es ?w) = Inr (es ?w)"
    by (simp add: example_deleteCharacter_def example_defs)
  note keys = keyBackspace_keyDelete_redispatch [OF sel, of example_core "\<lambda>t p w. Inr (False, w)"
      "\<lparr>event_id = 7, shiftKey = False\<rparr>" 0]
  from keys [THEN conjunct2, THEN conjunct2, THEN conjunct2, THEN conjunct2, THEN conjunct1] start
  have one: "execCommand (registry example_core) (Suc (Suc 0)) ''keyBackspace'' (example_event False) ?w
      = Inr (True, ?w\<lparr>prevented := [7]\<rparr>)"
    by (simp add: example_event_def example_world_def del: execCommand.simps)
  from keys [THEN conjunct2, THEN conjunct1]
  have two: "listener example_core (\<lambda>t p w. Inr (False, w)) ''keyDelete'' (example_event False) ?w
      = Inr (False, ?w\<lparr>prevented := [7]\<rparr>)"
    by (simp add: example_event_def example_world_def)
  from sel start one two show ?thesis by (simp del: execCommand.simps)
qed

section \<open>Seeding the document\<close>

lemma initParagraph_result:
  assumes "nodes s RootKey = Some r"
  shows "\<exists>s'. initParagraph doc RootKey ed s = Inr s'
      \<and> nodes s' RootKey = Some (r\<lparr>children := children r @ [NodeKey (nextKey s)]\<rparr>)
      \<and> nodes s' (NodeKey (nextKey s)) = Some seed_paragraph
      \<and> selection s' =
          (if selection s \<noteq> None \<or> (activeElement doc \<noteq> None \<and> activeElement doc = rootElement ed)
           then Some (collapsedAt (NodeKey (nextKey s)) 0) else None)"
  using assms
  by (auto simp: initParagraph_def createParagraphNode_def append_node_def select_def
      shouldSelectParagraph_def collapsedAt_def seed_paragraph_def Let_def)

lemma clear_result:
  assumes "nodes s RootKey = Some r"
  shows "\<exists>s1. clear RootKey s = Inr s1 \<and> nodes s1 RootKey = Some (r\<lparr>children := []\<rparr>)
     \<and> selection s1 = selection s \<and> nextKey s1 = nextKey s"
  using assms by (simp add: clear_def)

text \<open>
  C8: for every editor state with a root, whatever hangs under it, \<^verbatim>\<open>clearEditor\<close>
  commits a state in which the root has exactly one child, a fresh paragraph; the
  completion callback, when there is one, is applied to the editor that already holds
  the committed state.
\<close>

theorem clearEditor_reseeds:
  assumes root: "nodes (editorState ed) RootKey = Some r"
  shows "\<exists>s'. clearEditor doc ed callbackFn =
            Inr (case callbackFn of None \<Rightarrow> ed\<lparr>editorState := s'\<rparr> | Some f \<Rightarrow> f (ed\<lparr>editorState := s'\<rparr>))
      \<and> rootChildren s' = Some [NodeKey (nextKey (editorState ed))]
      \<and> nodes s' (NodeKey (nextKey (editorState ed))) = Some seed_paragraph"
proof -
  from clear_result [OF root] obtain s1 where
    c: "clear RootKey (editorState ed) = Inr s1" and r1: "nodes s1 RootKey = Some (r\<lparr>children := []\<rparr>)"
    and n1: "nextKey s1 = nextKey (editorState ed)" by blast
  from initParagraph_result [OF r1, of doc ed] n1 obtain s' where
    i: "initParagraph doc RootKey ed s1 = Inr s'"
    and r': "nodes s' RootKey = Some (r\<lparr>children := [NodeKey (nextKey (editorState ed))]\<rparr>)"
    and p': "nodes s' (NodeKey (nextKey (editorState ed))) = Some seed_paragraph"
    by auto
  have "clearEditor doc ed callbackFn =
      Inr (case callbackFn of None \<Rightarrow> ed\<lparr>editorState := s'\<rparr> | Some f \<Rightarrow> f (ed\<lparr>editorState := s'\<rparr>))"
    using root c i by (simp add: clearEditor_def update_def getRoot_def Let_def)
  with r' p' show ?thesis by (intro exI [of _ s']) (simp add: rootChildren_def)
qed

theorem clearEditor_reseeds_witness:
  "nodes (editorState (example_editor None)) RootKey =
      Some \<lparr>kind = RootNode, parent = None, children = [NodeKey 1, NodeKey 2], content = [], indent = 0\<rparr>
   \<and> (\<exists>s'. clearEditor example_document (example_editor None) (Some (\<lambda>ed. ed\<lparr>rootElement := None\<rparr>)) =
            Inr \<lparr>editorState = s', rootElement = None\<rparr>
      \<and> rootChildren s' = Some [NodeKey 5]
      \<and> nodes s' (NodeKey 5) = Some seed_paragraph)"
proof -
  have root: "nodes (editorState (example_editor None)) RootKey =
      Some \<lparr>kind = RootNode, parent = None, children = [NodeKey 1, NodeKey 2], content = [], indent = 0\<rparr>"
    by (simp add: example_editor_def example_defs)
  from clearEditor_reseeds [OF root, of example_document "Some (\<lambda>ed. ed\<lparr>rootElement := None\<rparr>)"]
  obtain s' where "clearEditor example_document (example_editor None) (Some (\<lambda>ed. ed\<lparr>rootElement := None\<rparr>)) =
            Inr ((example_editor None)\<lparr>editorState := s', rootElement := None\<rparr>)"
      and "rootChildren s' = Some [NodeKey (nextKey (editorState (example_editor None)))]"
      and "nodes s' (NodeKey (nextKey (editorState (example_editor None)))) = Some seed_paragraph"
    by auto
  then have "clearEditor example_document (example_editor None) (Some (\<lambda>ed. ed\<lparr>rootElement := None\<rparr>)) =
            Inr \<lparr>editorState = s', rootElement = None\<rparr>
      \<and> rootChildren s' = Some [NodeKey 5]
      \<and> nodes s' (NodeKey 5) = Some seed_paragraph"
    by (simp add: example_editor_def example_state_def)
  with root show ?thesis by blast
qed


text \<open>
  C9: \<^verbatim>\<open>initEditor\<close> changes nothing when the root has a first child. Otherwise it
  commits a state in which the root has one child, the seed paragraph, and the selection
  is collapsed inside that paragraph exactly when there was a selection before or the
  root element of the editor is the active element of the document; in the other case
  the selection stays null.
\<close>

theorem initEditor_seeds_once:
  assumes root: "nodes (editorState ed) RootKey = Some r"
  shows "(children r \<noteq> [] \<longrightarrow> initEditor doc ed = Inr ed)
    \<and> (children r = [] \<longrightarrow>
         (\<exists>s'. initEditor doc ed = Inr (ed\<lparr>editorState := s'\<rparr>)
            \<and> rootChildren s' = Some [NodeKey (nextKey (editorState ed))]
            \<and> nodes s' (NodeKey (nextKey (editorState ed))) = Some seed_paragraph
            \<and> selection s' =
                (if selection (editorState ed) \<noteq> None
                    \<or> (activeElement doc \<noteq> None \<and> activeElement doc = rootElement ed)
                 then Some (collapsedAt (NodeKey (nextKey (editorState ed))) 0) else None)))"
proof (intro conjI impI)
  assume "children r \<noteq> []"
  then show "initEditor doc ed = Inr ed"
    using root by (simp add: initEditor_def update_def getRoot_def getFirstChild_def Let_def split: list.splits)
next
  assume empty: "children r = []"
  from initParagraph_result [OF root, of doc ed] obtain s' where
    i: "initParagraph doc RootKey ed (editorState ed) = Inr s'"
    and r': "nodes s' RootKey = Some (r\<lparr>children := children r @ [NodeKey (nextKey (editorState ed))]\<rparr>)"
    and p': "nodes s' (NodeKey (nextKey (editorState ed))) = Some seed_paragraph"
    and s': "selection s' =
          (if selection (editorState ed) \<noteq> None
              \<or> (activeElement doc \<noteq> None \<and> activeElement doc = rootElement ed)
           then Some (collapsedAt (NodeKey (nextKey (editorState ed))) 0) else None)"
    by blast
  have "initEditor doc ed = Inr (ed\<lparr>editorState := s'\<rparr>)"
    using root empty i by (simp add: initEditor_def update_def getRoot_def getFirstChild_def Let_def)
  with r' p' s' empty show "\<exists>s'. initEditor doc ed = Inr (ed\<lparr>editorState := s'\<rparr>)
            \<and> rootChildren s' = Some [NodeKey (nextKey (editorState ed))]
            \<and> nodes s' (NodeKey (nextKey (editorState ed))) = Some seed_paragraph
            \<and> selection s' =
                (if selection (editorState ed) \<noteq> None
                    \<or> (activeElement doc \<noteq> None \<and> activeElement doc = rootElement ed)
                 then Some (collapsedAt (NodeKey (nextKey (editorState ed))) 0) else None)"
    by (intro exI [of _ s']) (simp add: rootChildren_def)
qed

theorem initEditor_seeds_once_witness:
  "nodes (editorState (example_editor None)) RootKey =
      Some \<lparr>kind = RootNode, parent = None, children = [NodeKey 1, NodeKey 2], content = [], indent = 0\<rparr>
   \<and> initEditor example_document (example_editor None) = Inr (example_editor None)
   \<and> nodes (editorState empty_editor) RootKey =
      Some \<lparr>kind = RootNode, parent = None, children = [], content = [], indent = 0\<rparr>
   \<and> (\<exists>s'. initEditor example_document empty_editor = Inr (empty_editor\<lparr>editorState := s'\<rparr>)
        \<and> rootChildren s' = Some [NodeKey 1]
        \<and> nodes s' (NodeKey 1) = Some seed_paragraph
        \<and> selection s' = Some (collapsedAt (NodeKey 1) 0))
   \<and> (\<exists>s'. initEditor \<lparr>activeElement = None\<rparr> empty_editor = Inr (empty_editor\<lparr>editorState := s'\<rparr>)
        \<and> rootChildren s' = Some [NodeKey 1]
        \<and> selection s' = None)"
proof -
  have root: "nodes (editorState (example_editor None)) RootKey =
      Some \<lparr>kind = RootNode, parent = None, children = [NodeKey 1, NodeKey 2], content = [], indent = 0\<rparr>"
    by (simp add: example_editor_def example_defs)
  have root0: "nodes (editorState empty_editor) RootKey =
      Some \<lparr>kind = RootNode, parent = None, children = [], content = [], indent = 0\<rparr>"
    by (simp add: empty_editor_def)
  have facts: "nextKey (editorState empty_editor) = 1" "selection (editorState empty_editor) = None"
    "rootElement empty_editor = Some 1" "activeElement example_document = Some 1"
    by (simp_all add: empty_editor_def example_document_def)
  from initEditor_seeds_once [OF root, of example_document, THEN conjunct1]
  have one: "initEditor example_document (example_editor None) = Inr (example_editor None)"
    by simp
  from initEditor_seeds_once [OF root0, of example_document, THEN conjunct2]
  have two: "\<exists>s'. initEditor example_document empty_editor = Inr (empty_editor\<lparr>editorState := s'\<rparr>)
        \<and> rootChildren s' = Some [NodeKey 1]
        \<and> nodes s' (NodeKey 1) = Some seed_paragraph
        \<and> selection s' = Some (collapsedAt (NodeKey 1) 0)"
    by (simp add: facts)
  from initEditor_seeds_once [OF root0, of "\<lparr>activeElement = None\<rparr>", THEN conjunct2]
  have three': "\<exists>s'. initEditor \<lparr>activeElement = None\<rparr> empty_editor = Inr (empty_editor\<lparr>editorState := s'\<rparr>)
        \<and> rootChildren s' = Some [NodeKey 1]
        \<and> selection s' = None"
    by (auto simp add: facts)
  from root one root0 two three' show ?thesis by blast
qed

end
